theory Spec2Isabelle
  imports Main
begin

section \<open>Tenant paths: user-id sanitization and path derivation\<close>

text \<open>
  Source: the configuration module \<^verbatim>\<open>config/multi-tenant.ts\<close> (functions
  \<^verbatim>\<open>sanitizeUserId\<close>, \<^verbatim>\<open>getUserWorkspacePath\<close>, \<^verbatim>\<open>getMultiTenantWorkspaceRoot\<close>), as
  listed in the deployment guide.
  A JavaScript string is modelled as a \<^typ>\<open>string\<close>, one \<^typ>\<open>char\<close> per code unit; the three
  regular expressions of the sanitizer carry no \<^verbatim>\<open>u\<close> flag and work unit by unit.
\<close>

datatype error =
    InvalidUserId_empty       \<comment> \<open>"Invalid user ID: cannot be empty after sanitization"\<close>
  | InvalidUserId_too_long    \<comment> \<open>"Invalid user ID: too long (max 128 characters)"\<close>
  | StorageError              \<comment> \<open>a filesystem fault other than ENOENT\<close>

text \<open>\<^verbatim>\<open>.replace(/\.\./g, "")\<close>: the matches are found left to right and do not overlap.\<close>

fun remove_dotdot :: "string \<Rightarrow> string" where
  "remove_dotdot (a # b # rest) =
     (if a = CHR ''.'' \<and> b = CHR ''.'' then remove_dotdot rest
      else a # remove_dotdot (b # rest))"
| "remove_dotdot xs = xs"

text \<open>\<^verbatim>\<open>.replace(/[/\\]/g, "")\<close>\<close>

definition is_separator :: "char \<Rightarrow> bool" where
  "is_separator c \<longleftrightarrow> c = CHR ''/'' \<or> c = CHR 0x5C"

definition remove_separators :: "string \<Rightarrow> string" where
  "remove_separators s = filter (\<lambda>c. \<not> is_separator c) s"

text \<open>\<^verbatim>\<open>.replace(/[^a-zA-Z0-9_-]/g, "_")\<close>\<close>

definition is_allowed :: "char \<Rightarrow> bool" where
  "is_allowed c \<longleftrightarrow>
     c \<in> set ''abcdefghijklmnopqrstuvwxyzABCDEFGHIJKLMNOPQRSTUVWXYZ0123456789_-''"

definition replace_disallowed :: "string \<Rightarrow> string" where
  "replace_disallowed s = map (\<lambda>c. if is_allowed c then c else CHR ''_'') s"

text \<open>The local \<^verbatim>\<open>const sanitized\<close>: the three replacements, chained.\<close>

definition sanitized :: "string \<Rightarrow> string" where
  "sanitized userId = replace_disallowed (remove_separators (remove_dotdot userId))"

definition sanitizeUserId :: "string \<Rightarrow> error + string" where
  "sanitizeUserId userId =
     (if sanitized userId = [] then Inl InvalidUserId_empty
      else if length (sanitized userId) > 128 then Inl InvalidUserId_too_long
      else Inr (sanitized userId))"

text \<open>
  The sanitizer as the specification words it: path separators and \<^verbatim>\<open>..\<close> are mapped to
  \<^verbatim>\<open>_\<close>, and only the characters of \<^verbatim>\<open>[A-Za-z0-9_-]\<close> are kept.
\<close>

fun spec_map_dotdot :: "string \<Rightarrow> string" where
  "spec_map_dotdot (a # b # rest) =
     (if a = CHR ''.'' \<and> b = CHR ''.'' then CHR ''_'' # spec_map_dotdot rest
      else a # spec_map_dotdot (b # rest))"
| "spec_map_dotdot xs = xs"

definition spec_sanitized :: "string \<Rightarrow> string" where
  "spec_sanitized userId =
     filter is_allowed
       (map (\<lambda>c. if is_separator c then CHR ''_'' else c) (spec_map_dotdot userId))"

definition spec_sanitizeUserId :: "string \<Rightarrow> error + string" where
  "spec_sanitizeUserId userId =
     (if spec_sanitized userId = [] then Inl InvalidUserId_empty
      else if length (spec_sanitized userId) > 128 then Inl InvalidUserId_too_long
      else Inr (spec_sanitized userId))"

subsection \<open>Node's \<^verbatim>\<open>path.posix\<close>: \<^verbatim>\<open>basename\<close>, \<^verbatim>\<open>normalize\<close>, \<^verbatim>\<open>join\<close>\<close>

text \<open>
  The deployment target is Linux, so \<^verbatim>\<open>node:path\<close> is \<^verbatim>\<open>path.posix\<close>. A path is cut at
  every \<^verbatim>\<open>/\<close>; \<^verbatim>\<open>normalize\<close> drops empty and \<^verbatim>\<open>.\<close> segments and resolves \<^verbatim>\<open>..\<close> against
  the segment before it (a \<^verbatim>\<open>..\<close> that has nothing to cancel is kept in a relative path and
  dropped in an absolute one).
\<close>

fun split_path :: "string \<Rightarrow> string list" where
  "split_path [] = [[]]"
| "split_path (c # cs) =
     (if c = CHR ''/'' then [] # split_path cs
      else (case split_path cs of
              [] \<Rightarrow> [[c]]
            | s # ss \<Rightarrow> (c # s) # ss))"

fun join_segments :: "string list \<Rightarrow> string" where
  "join_segments [] = []"
| "join_segments [s] = s"
| "join_segments (s # t # ts) = s @ ''/'' @ join_segments (t # ts)"

text \<open>One step of \<^verbatim>\<open>normalizeString\<close>; the segments kept so far are held newest first.\<close>

definition normalize_step :: "bool \<Rightarrow> string list \<Rightarrow> string \<Rightarrow> string list" where
  "normalize_step allowAboveRoot res seg =
     (if seg = [] \<or> seg = ''.'' then res
      else if seg = ''..'' then
        (case res of
           [] \<Rightarrow> (if allowAboveRoot then [''..''] else [])
         | seg0 # below \<Rightarrow>
             (if seg0 = ''..'' then (if allowAboveRoot then ''..'' # res else res)
              else below))
      else seg # res)"

definition normalizeString :: "bool \<Rightarrow> string \<Rightarrow> string" where
  "normalizeString allowAboveRoot p =
     join_segments (rev (foldl (normalize_step allowAboveRoot) [] (split_path p)))"

definition path_normalize :: "string \<Rightarrow> string" where
  "path_normalize p =
     (if p = [] then ''.''
      else
        (let isAbsolute = (hd p = CHR ''/'');
             trailingSeparator = (last p = CHR ''/'');
             q = normalizeString (\<not> isAbsolute) p
         in if q = [] then
              (if isAbsolute then ''/'' else if trailingSeparator then ''./'' else ''.'')
            else (if isAbsolute then ''/'' else '''') @ q
                 @ (if trailingSeparator then ''/'' else '''')))"

definition path_join :: "string list \<Rightarrow> string" where
  "path_join args =
     (let parts = filter (\<lambda>a. a \<noteq> []) args
      in if parts = [] then ''.'' else path_normalize (join_segments parts))"

definition path_basename :: "string \<Rightarrow> string" where
  "path_basename p =
     rev (takeWhile (\<lambda>c. c \<noteq> CHR ''/'') (dropWhile (\<lambda>c. c = CHR ''/'') (rev p)))"

subsection \<open>Per-user paths\<close>

definition DEFAULT_workspaceRoot :: string where
  "DEFAULT_workspaceRoot = ''/data/openclaw/workspaces''"

text \<open>\<^verbatim>\<open>config.workspaceRoot || DEFAULT_MULTI_TENANT_CONFIG.workspaceRoot\<close>\<close>

definition getMultiTenantWorkspaceRoot :: "string \<Rightarrow> string" where
  "getMultiTenantWorkspaceRoot configured =
     (if configured = [] then DEFAULT_workspaceRoot else configured)"

definition getUserWorkspacePath :: "string \<Rightarrow> string \<Rightarrow> error + string" where
  "getUserWorkspacePath configured userId =
     (let workspaceRoot = getMultiTenantWorkspaceRoot configured
      in case sanitizeUserId userId of
           Inl e \<Rightarrow> Inl e
         | Inr safeUserId \<Rightarrow> Inr (path_join [workspaceRoot, ''users'', safeUserId]))"

text \<open>The directory every workspace is promised to stay in.\<close>

definition users_dir :: "string \<Rightarrow> string" where
  "users_dir configured = path_join [getMultiTenantWorkspaceRoot configured, ''users'']"

definition DEFAULT_configRoot :: string where
  "DEFAULT_configRoot = ''/data/openclaw/configs''"

definition getMultiTenantConfigRoot :: "string \<Rightarrow> string" where
  "getMultiTenantConfigRoot configured =
     (if configured = [] then DEFAULT_configRoot else configured)"

definition getUserConfigPath :: "string \<Rightarrow> string \<Rightarrow> error + string" where
  "getUserConfigPath configured userId =
     (let configRoot = getMultiTenantConfigRoot configured
      in case sanitizeUserId userId of
           Inl e \<Rightarrow> Inl e
         | Inr safeUserId \<Rightarrow> Inr (path_join [configRoot, ''users'', safeUserId, ''config.json'']))"

text \<open>
  The global configuration the path functions read, and whether the filesystem lets the
  directories be made (\<^verbatim>\<open>fs.promises.mkdir\<close> rejects otherwise).
\<close>

record global_config =
  cfg_workspaceRoot :: string
  cfg_configRoot :: string
  cfg_templatePath :: string

record user_paths =
  p_workspacePath :: string
  p_configPath :: string

definition ensureUserDirectories ::
  "global_config \<Rightarrow> bool \<Rightarrow> string \<Rightarrow> error + user_paths" where
  "ensureUserDirectories g mkdir_ok userId =
     (case getUserWorkspacePath (cfg_workspaceRoot g) userId of
        Inl e \<Rightarrow> Inl e
      | Inr workspacePath \<Rightarrow>
          (case getUserConfigPath (cfg_configRoot g) userId of
             Inl e \<Rightarrow> Inl e
           | Inr configPath \<Rightarrow>
               if mkdir_ok
               then Inr \<lparr>p_workspacePath = workspacePath, p_configPath = configPath\<rparr>
               else Inl StorageError))"

text \<open>\<^verbatim>\<open>writeUserConfig\<close>: derives the path (sanitizing again), then writes the file.\<close>

definition writeUserConfig :: "global_config \<Rightarrow> bool \<Rightarrow> string \<Rightarrow> error + unit" where
  "writeUserConfig g write_ok userId =
     (case getUserConfigPath (cfg_configRoot g) userId of
        Inl e \<Rightarrow> Inl e
      | Inr configPath \<Rightarrow> if write_ok then Inr () else Inl StorageError)"

section \<open>The tenant manager\<close>

text \<open>
  Source: class \<^verbatim>\<open>MultiTenantGatewayManager\<close> (\<^verbatim>\<open>gateway/multi-tenant/manager.ts\<close>); the
  file holds the class twice, the first copy with the synchronous \<^verbatim>\<open>authenticateToken\<close>,
  the second with the asynchronous one, and the two copies agree on every other method.
  A JavaScript \<^verbatim>\<open>Map\<close> keeps its entries in insertion order, and the eviction scans depend
  on that order, so a \<^verbatim>\<open>Map\<close> is an association list: \<^verbatim>\<open>set\<close> overwrites an entry where it
  stands or appends a new one, \<^verbatim>\<open>delete\<close> removes the entry, \<^verbatim>\<open>size\<close> is the length.
  Numbers that the code only counts with or compares are \<^typ>\<open>int\<close>. A configuration
  object is opaque to the manager and is carried as its JSON text. The status of a user
  is typed \<^verbatim>\<open>"active" | "suspended" | "expired"\<close>, but it arrives from the backend through
  unchecked casts, so it is the string received, or \<^term>\<open>None\<close> for \<^verbatim>\<open>undefined\<close>.
\<close>

definition js_map_get :: "('k \<times> 'v) list \<Rightarrow> 'k \<Rightarrow> 'v option" where
  "js_map_get m k = map_of m k"

definition js_map_has :: "('k \<times> 'v) list \<Rightarrow> 'k \<Rightarrow> bool" where
  "js_map_has m k \<longleftrightarrow> map_of m k \<noteq> None"

fun js_map_set :: "'k \<Rightarrow> 'v \<Rightarrow> ('k \<times> 'v) list \<Rightarrow> ('k \<times> 'v) list" where
  "js_map_set k v [] = [(k, v)]"
| "js_map_set k v (e # es) = (if fst e = k then (k, v) # es else e # js_map_set k v es)"

definition js_map_delete :: "'k \<Rightarrow> ('k \<times> 'v) list \<Rightarrow> ('k \<times> 'v) list" where
  "js_map_delete k m = filter (\<lambda>e. fst e \<noteq> k) m"

type_synonym OpenClawConfig = string

record UserInstance =
  userId :: string
  config :: OpenClawConfig
  workspacePath :: string
  configPath :: string
  lastActivityAt :: int
  pendingRequests :: int
  status :: "string option"
  llmApiKey :: "string option"

record CloudUserConfig =
  cu_userId :: string
  cu_gatewayToken :: string
  cu_openclawConfig :: OpenClawConfig
  cu_status :: "string option"
  cu_llmApiKey :: "string option"
  cu_updatedAt :: string

record WorkspaceFileResolver =
  r_userId :: string
  r_workspacePath :: string
  r_templatePath :: string

datatype evict_reason = Idle | Lru | Manual

datatype event =
    UserLoaded string
  | UserEvicted string evict_reason
  | UserSuspended string
  | UserExpired string
  | ConfigSynced nat string
  | SyncFailed string nat

datatype log_entry =
    Warn_NoBackendUrl           \<comment> \<open>"No cloud backend URL configured for token verification"\<close>
  | Error_VerifyHttp int        \<comment> \<open>"Token verification failed: HTTP <status>"\<close>
  | Error_VerifyThrown          \<comment> \<open>"Token verification error:" (the catch block)\<close>
  | Log_TokenVerified string    \<comment> \<open>"Token verified via cloud backend for user <id>"\<close>
  | Error_UpdateFailed string   \<comment> \<open>"Failed to update config for user <id>:"\<close>

record manager_options =
  maxCachedUsers :: int
  userIdleTimeoutMs :: int
  cloudBackendUrl :: string
  templatePath :: string

text \<open>
  The fields of the class, then what it does to the outside, oldest first: the events
  handed to the listeners, the lines handed to the logger, and the tokens sent to the
  backend's verify endpoint.
\<close>

record manager =
  userInstances :: "(string \<times> UserInstance) list"
  tokenToUserId :: "(string \<times> string) list"
  configCache :: "(string \<times> OpenClawConfig) list"
  workspaceResolvers :: "(string \<times> WorkspaceFileResolver) list"
  options :: manager_options
  cacheHits :: nat
  cacheMisses :: nat
  lastSyncAt :: "string option"
  syncFailures :: nat
  emitted :: "event list"
  logged :: "log_entry list"
  verifyCalls :: "string list"

definition new_manager :: "manager_options \<Rightarrow> manager" where
  "new_manager opts =
     \<lparr>userInstances = [], tokenToUserId = [], configCache = [], workspaceResolvers = [],
      options = opts, cacheHits = 0, cacheMisses = 0, lastSyncAt = None, syncFailures = 0,
      emitted = [], logged = [], verifyCalls = []\<rparr>"

text \<open>
  \<^verbatim>\<open>emit\<close> hands the event to every listener and catches whatever a listener throws. The
  listeners are observers: they are not part of the manager and are taken not to call
  back into it.
\<close>

definition emit :: "event \<Rightarrow> manager \<Rightarrow> manager" where
  "emit ev m = m\<lparr>emitted := emitted m @ [ev]\<rparr>"

definition log_line :: "log_entry \<Rightarrow> manager \<Rightarrow> manager" where
  "log_line l m = m\<lparr>logged := logged m @ [l]\<rparr>"

subsection \<open>Authentication, local index only (the synchronous variant)\<close>

definition authenticateToken_sync :: "string \<Rightarrow> manager \<Rightarrow> string option \<times> manager" where
  "authenticateToken_sync token m =
     (case js_map_get (tokenToUserId m) token of
        None \<Rightarrow> (None, m)
      | Some uid \<Rightarrow>
          if uid = [] then (None, m)
          else
            (case js_map_get (userInstances m) uid of
               None \<Rightarrow> (None, m)
             | Some instance \<Rightarrow>
                 if status instance = Some ''suspended'' then (None, emit (UserSuspended uid) m)
                 else if status instance = Some ''expired'' then (None, emit (UserExpired uid) m)
                 else (Some uid, m)))"

subsection \<open>Materializing an instance\<close>

text \<open>
  The resolver handle, as \<^verbatim>\<open>createWorkspaceFileResolver\<close> binds it (its reading functions
  are modelled with the workspace file resolver below):
  \<^verbatim>\<open>params.templatePath || getMultiTenantTemplatePath()\<close> puts the global template path in
  the place of a missing or empty one.
\<close>

definition DEFAULT_templatePath :: string where
  "DEFAULT_templatePath = ''/data/openclaw/workspaces/template''"

definition getMultiTenantTemplatePath :: "global_config \<Rightarrow> string" where
  "getMultiTenantTemplatePath g =
     (if cfg_templatePath g = [] then DEFAULT_templatePath else cfg_templatePath g)"

definition createWorkspaceFileResolver ::
  "global_config \<Rightarrow> string \<Rightarrow> string \<Rightarrow> string option \<Rightarrow> WorkspaceFileResolver" where
  "createWorkspaceFileResolver g uid wsPath tmpl =
     \<lparr>r_userId = uid, r_workspacePath = wsPath,
      r_templatePath =
        (case tmpl of
           None \<Rightarrow> getMultiTenantTemplatePath g
         | Some t \<Rightarrow> if t = [] then getMultiTenantTemplatePath g else t)\<rparr>"

definition initializeUserInstance ::
  "global_config \<Rightarrow> bool \<Rightarrow> int \<Rightarrow> string \<Rightarrow> OpenClawConfig \<Rightarrow> CloudUserConfig option
     \<Rightarrow> manager \<Rightarrow> error + (UserInstance \<times> manager)" where
  "initializeUserInstance g mkdir_ok now uid cfg cloudConfig m =
     (case ensureUserDirectories g mkdir_ok uid of
        Inl e \<Rightarrow> Inl e
      | Inr paths \<Rightarrow>
          (let instance =
                 \<lparr>userId = uid, config = cfg,
                  workspacePath = p_workspacePath paths, configPath = p_configPath paths,
                  lastActivityAt = now, pendingRequests = 0,
                  status = (case cloudConfig of
                              None \<Rightarrow> Some ''active''
                            | Some c \<Rightarrow>
                                (case cu_status c of None \<Rightarrow> Some ''active'' | Some s \<Rightarrow> Some s)),
                  llmApiKey = (case cloudConfig of None \<Rightarrow> None | Some c \<Rightarrow> cu_llmApiKey c)\<rparr>;
               resolver =
                 createWorkspaceFileResolver g uid (p_workspacePath paths)
                   (Some (templatePath (options m)));
               m1 = m\<lparr>userInstances := js_map_set uid instance (userInstances m),
                      configCache := js_map_set uid cfg (configCache m),
                      workspaceResolvers := js_map_set uid resolver (workspaceResolvers m)\<rparr>
           in Inr (instance, emit (UserLoaded uid) m1)))"

subsection \<open>Authentication with remote verification (the asynchronous variant)\<close>

text \<open>
  What the rest of the world answers during one call: whether \<^verbatim>\<open>new URL(path, cloudBackendUrl)\<close>
  accepts the configured base, what \<^verbatim>\<open>fetch\<close> and \<^verbatim>\<open>response.json()\<close> give, whether the
  directories can be made, and the clock.
\<close>

record verify_record =
  user_id :: string
  vr_status :: "string option"
  openclaw_config :: OpenClawConfig

datatype response_body =
    BodyThrows
      \<comment> \<open>\<^verbatim>\<open>response.json()\<close> rejects, or the body is \<^verbatim>\<open>null\<close> (reading \<^verbatim>\<open>.data\<close> of it throws)\<close>
  | Json "verify_record option"
      \<comment> \<open>the \<^verbatim>\<open>data\<close> member; \<^term>\<open>None\<close> when the body has none (a number, a string, an array, \<^verbatim>\<open>{}\<close>)\<close>

datatype fetch_result =
    FetchThrows                      \<comment> \<open>network failure or the 5 s timeout\<close>
  | Response int response_body       \<comment> \<open>status code and body\<close>

record verify_env =
  url_parses :: bool
  fetched :: fetch_result
  mkdir_ok :: bool
  now :: int
  now_iso :: string

definition response_ok :: "int \<Rightarrow> bool" where
  "response_ok st \<longleftrightarrow> 200 \<le> st \<and> st \<le> 299"

definition verify_remote ::
  "global_config \<Rightarrow> verify_env \<Rightarrow> string \<Rightarrow> manager \<Rightarrow> string option \<times> manager" where
  "verify_remote g env token m =
     (if cloudBackendUrl (options m) = [] then (None, log_line Warn_NoBackendUrl m)
      else if \<not> url_parses env then (None, log_line Error_VerifyThrown m)
      else
        (let m1 = m\<lparr>verifyCalls := verifyCalls m @ [token]\<rparr>
         in case fetched env of
              FetchThrows \<Rightarrow> (None, log_line Error_VerifyThrown m1)
            | Response st body \<Rightarrow>
                if \<not> response_ok st then
                  (if st = 401 then (None, m1)
                   else (None, log_line (Error_VerifyHttp st) m1))
                else
                  (case body of
                     BodyThrows \<Rightarrow> (None, log_line Error_VerifyThrown m1)
                   | Json None \<Rightarrow> (None, m1)
                   | Json (Some result) \<Rightarrow>
                       if user_id result = [] then (None, m1)
                       else
                         (case sanitizeUserId (user_id result) of
                            Inl e \<Rightarrow> (None, log_line Error_VerifyThrown m1)
                          | Inr uid \<Rightarrow>
                              (let m2 = m1\<lparr>tokenToUserId :=
                                             js_map_set token uid (tokenToUserId m1)\<rparr>
                               in if js_map_has (userInstances m2) uid
                                  then (Some uid, log_line (Log_TokenVerified uid) m2)
                                  else
                                    (case initializeUserInstance g (mkdir_ok env) (now env) uid
                                            (openclaw_config result)
                                            (Some \<lparr>cu_userId = user_id result,
                                                   cu_gatewayToken = token,
                                                   cu_openclawConfig = openclaw_config result,
                                                   cu_status = vr_status result,
                                                   cu_llmApiKey = None,
                                                   cu_updatedAt = now_iso env\<rparr>) m2 of
                                       Inl e \<Rightarrow> (None, log_line Error_VerifyThrown m2)
                                     | Inr (instance, m3) \<Rightarrow>
                                         (Some uid, log_line (Log_TokenVerified uid) m3)))))))"

text \<open>
  The two nested tests \<^verbatim>\<open>if (cachedUserId)\<close> and \<^verbatim>\<open>if (instance)\<close>: the local cache hits
  when the token is indexed under a non-empty id whose instance is loaded.
\<close>

definition cache_hit :: "manager \<Rightarrow> string \<Rightarrow> (string \<times> UserInstance) option" where
  "cache_hit m token =
     (case js_map_get (tokenToUserId m) token of
        None \<Rightarrow> None
      | Some cachedUserId \<Rightarrow>
          if cachedUserId = [] then None
          else map_option (Pair cachedUserId) (js_map_get (userInstances m) cachedUserId))"

definition authenticateToken ::
  "global_config \<Rightarrow> verify_env \<Rightarrow> string \<Rightarrow> manager \<Rightarrow> string option \<times> manager" where
  "authenticateToken g env token m =
     (case cache_hit m token of
        Some (cachedUserId, instance) \<Rightarrow>
          if status instance = Some ''suspended''
          then (None, emit (UserSuspended cachedUserId) m)
          else if status instance = Some ''expired''
          then (None, emit (UserExpired cachedUserId) m)
          else (Some cachedUserId, m)
      | None \<Rightarrow> verify_remote g env token m)"

subsection \<open>Cache-or-load\<close>

text \<open>
  \<^verbatim>\<open>readUserConfig\<close> gives the parsed file, \<^verbatim>\<open>null\<close> when the file does not exist, and
  throws on any other fault; the outcome is an input of the model.
\<close>

definition getUserInstance ::
  "global_config \<Rightarrow> bool \<Rightarrow> int \<Rightarrow> (error + OpenClawConfig option) \<Rightarrow> string \<Rightarrow> manager
     \<Rightarrow> (error + UserInstance option) \<times> manager" where
  "getUserInstance g dirs_ok t disk uid0 m =
     (case sanitizeUserId uid0 of
        Inl e \<Rightarrow> (Inl e, m)
      | Inr safeUserId \<Rightarrow>
          (case js_map_get (userInstances m) safeUserId of
             Some cached \<Rightarrow>
               (let cached' = cached\<lparr>lastActivityAt := t\<rparr>
                in (Inr (Some cached'),
                    m\<lparr>cacheHits := cacheHits m + 1,
                      userInstances := js_map_set safeUserId cached' (userInstances m)\<rparr>))
           | None \<Rightarrow>
               (let m1 = m\<lparr>cacheMisses := cacheMisses m + 1\<rparr>
                in case disk of
                     Inl e \<Rightarrow> (Inl e, m1)
                   | Inr None \<Rightarrow> (Inr None, m1)
                   | Inr (Some cfg) \<Rightarrow>
                       (case initializeUserInstance g dirs_ok t safeUserId cfg None m1 of
                          Inl e \<Rightarrow> (Inl e, m1)
                        | Inr (instance, m2) \<Rightarrow> (Inr (Some instance), m2)))))"

subsection \<open>Applying a sync batch\<close>

text \<open>One record of the batch; a throw inside the \<^verbatim>\<open>try\<close> is logged and the record skipped.\<close>

definition update_one ::
  "global_config \<Rightarrow> (string \<Rightarrow> bool) \<Rightarrow> CloudUserConfig \<Rightarrow> nat \<times> manager \<Rightarrow> nat \<times> manager" where
  "update_one g write_ok cloudConfig acc =
     (let updated = fst acc; m = snd acc
      in case sanitizeUserId (cu_userId cloudConfig) of
           Inl e \<Rightarrow> (updated, log_line (Error_UpdateFailed (cu_userId cloudConfig)) m)
         | Inr uid \<Rightarrow>
             (let m1 = m\<lparr>tokenToUserId :=
                          js_map_set (cu_gatewayToken cloudConfig) uid (tokenToUserId m)\<rparr>
              in case writeUserConfig g (write_ok uid) uid of
                   Inl e \<Rightarrow> (updated, log_line (Error_UpdateFailed (cu_userId cloudConfig)) m1)
                 | Inr u \<Rightarrow>
                     (case js_map_get (userInstances m1) uid of
                        None \<Rightarrow> (updated + 1, m1)
                      | Some existing \<Rightarrow>
                          (updated + 1,
                           m1\<lparr>userInstances :=
                                js_map_set uid
                                  (existing\<lparr>config := cu_openclawConfig cloudConfig,
                                            status := cu_status cloudConfig,
                                            llmApiKey := cu_llmApiKey cloudConfig\<rparr>)
                                  (userInstances m1),
                              configCache :=
                                js_map_set uid (cu_openclawConfig cloudConfig) (configCache m1)\<rparr>))))"

definition updateUserConfigs ::
  "global_config \<Rightarrow> (string \<Rightarrow> bool) \<Rightarrow> string \<Rightarrow> CloudUserConfig list \<Rightarrow> manager
     \<Rightarrow> nat \<times> manager" where
  "updateUserConfigs g write_ok stamp configs m =
     (let r = foldl (\<lambda>acc c. update_one g write_ok c acc) (0, m) configs;
          updated = fst r;
          m1 = (snd r)\<lparr>lastSyncAt := Some stamp, syncFailures := 0\<rparr>
      in (updated, emit (ConfigSynced updated stamp) m1))"

definition recordSyncFailure :: "string \<Rightarrow> manager \<Rightarrow> manager" where
  "recordSyncFailure err m =
     (let m1 = m\<lparr>syncFailures := syncFailures m + 1\<rparr>
      in emit (SyncFailed err (syncFailures m1)) m1)"

subsection \<open>Pending-request counters\<close>

definition incrementPendingRequests :: "int \<Rightarrow> string \<Rightarrow> manager \<Rightarrow> error + manager" where
  "incrementPendingRequests t uid0 m =
     (case sanitizeUserId uid0 of
        Inl e \<Rightarrow> Inl e
      | Inr uid \<Rightarrow>
          (case js_map_get (userInstances m) uid of
             None \<Rightarrow> Inr m
           | Some instance \<Rightarrow>
               Inr (m\<lparr>userInstances :=
                       js_map_set uid
                         (instance\<lparr>pendingRequests := pendingRequests instance + 1,
                                   lastActivityAt := t\<rparr>)
                         (userInstances m)\<rparr>)))"

definition decrementPendingRequests :: "int \<Rightarrow> string \<Rightarrow> manager \<Rightarrow> error + manager" where
  "decrementPendingRequests t uid0 m =
     (case sanitizeUserId uid0 of
        Inl e \<Rightarrow> Inl e
      | Inr uid \<Rightarrow>
          (case js_map_get (userInstances m) uid of
             None \<Rightarrow> Inr m
           | Some instance \<Rightarrow>
               if pendingRequests instance > 0 then
                 Inr (m\<lparr>userInstances :=
                         js_map_set uid
                           (instance\<lparr>pendingRequests := pendingRequests instance - 1,
                                     lastActivityAt := t\<rparr>)
                           (userInstances m)\<rparr>)
               else Inr m))"

subsection \<open>Eviction\<close>

definition evictUser :: "string \<Rightarrow> evict_reason \<Rightarrow> manager \<Rightarrow> manager" where
  "evictUser uid reason m =
     emit (UserEvicted uid reason)
       (m\<lparr>userInstances := js_map_delete uid (userInstances m),
          configCache := js_map_delete uid (configCache m),
          workspaceResolvers := js_map_delete uid (workspaceResolvers m)\<rparr>)"

definition maybeEvictUser :: "string \<Rightarrow> evict_reason \<Rightarrow> manager \<Rightarrow> manager" where
  "maybeEvictUser uid reason m =
     (case js_map_get (userInstances m) uid of
        None \<Rightarrow> m
      | Some instance \<Rightarrow> if pendingRequests instance > 0 then m else evictUser uid reason m)"

definition forceEvictUser :: "string \<Rightarrow> manager \<Rightarrow> error + (bool \<times> manager)" where
  "forceEvictUser uid0 m =
     (case sanitizeUserId uid0 of
        Inl e \<Rightarrow> Inl e
      | Inr safeUserId \<Rightarrow>
          if \<not> js_map_has (userInstances m) safeUserId then Inr (False, m)
          else Inr (True, evictUser safeUserId Manual m))"

text \<open>
  The first loop of \<^verbatim>\<open>cleanupInactiveUsers\<close>. The loop walks the live \<^verbatim>\<open>Map\<close> and deletes
  nothing but the entry it stands on, so it visits the entries the map had at the start,
  in their order.
\<close>

fun idle_pass :: "int \<Rightarrow> int \<Rightarrow> (string \<times> UserInstance) list \<Rightarrow> manager \<Rightarrow> manager" where
  "idle_pass t idleTimeout [] m = m"
| "idle_pass t idleTimeout ((uid, instance) # rest) m =
     (if pendingRequests instance > 0 then idle_pass t idleTimeout rest m
      else if t - lastActivityAt instance > idleTimeout
      then idle_pass t idleTimeout rest (evictUser uid Idle m)
      else idle_pass t idleTimeout rest m)"

text \<open>
  The inner scan of the second loop, with its two variables \<^verbatim>\<open>oldestUserId\<close> (initially
  \<^verbatim>\<open>null\<close>) and \<^verbatim>\<open>oldestActivity\<close> (initially \<^verbatim>\<open>Infinity\<close>, here \<^term>\<open>None\<close>).
\<close>

fun find_oldest ::
  "(string \<times> UserInstance) list \<Rightarrow> string option \<Rightarrow> int option \<Rightarrow> string option" where
  "find_oldest [] oldestUserId oldestActivity = oldestUserId"
| "find_oldest ((uid, instance) # rest) oldestUserId oldestActivity =
     (if pendingRequests instance > 0 then find_oldest rest oldestUserId oldestActivity
      else if (case oldestActivity of None \<Rightarrow> True | Some a \<Rightarrow> lastActivityAt instance < a)
      then find_oldest rest (Some uid) (Some (lastActivityAt instance))
      else find_oldest rest oldestUserId oldestActivity)"

lemma find_oldest_member:
  "find_oldest xs acc a = Some u \<Longrightarrow> acc = Some u \<or> u \<in> fst ` set xs"
  by (induction xs acc a rule: find_oldest.induct) (auto split: if_splits)

lemma js_map_delete_shorter:
  "u \<in> fst ` set xs \<Longrightarrow> length (js_map_delete u xs) < length xs"
proof -
  assume "u \<in> fst ` set xs"
  then obtain e where "e \<in> set xs" and "\<not> fst e \<noteq> u" by auto
  then show ?thesis
    unfolding js_map_delete_def by (rule length_filter_less)
qed

text \<open>
  The second loop. \<^verbatim>\<open>if (oldestUserId)\<close> is a truthiness test: \<^verbatim>\<open>null\<close> and the empty
  string both leave the loop.
\<close>

function lru_pass :: "manager \<Rightarrow> manager" where
  "lru_pass m =
     (if int (length (userInstances m)) > maxCachedUsers (options m) then
        (case find_oldest (userInstances m) None None of
           None \<Rightarrow> m
         | Some oldestUserId \<Rightarrow>
             if oldestUserId = [] then m else lru_pass (evictUser oldestUserId Lru m))
      else m)"
  by pat_completeness auto
termination
proof (relation "measure (\<lambda>m. length (userInstances m))")
  show "wf (measure (\<lambda>m. length (userInstances m)))" by simp
next
  fix m :: manager and u :: string
  assume "find_oldest (userInstances m) None None = Some u"
  then have "u \<in> fst ` set (userInstances m)"
    using find_oldest_member by fastforce
  then show "(evictUser u Lru m, m) \<in> measure (\<lambda>m. length (userInstances m))"
    by (simp add: evictUser_def emit_def js_map_delete_shorter)
qed

declare lru_pass.simps [simp del]

definition cleanupInactiveUsers :: "int \<Rightarrow> manager \<Rightarrow> manager" where
  "cleanupInactiveUsers t m =
     lru_pass (idle_pass t (userIdleTimeoutMs (options m)) (userInstances m) m)"

subsection \<open>Read-only projections\<close>

text \<open>\<^verbatim>\<open>cacheHitRate\<close> is a floating-point quotient; it is carried as numerator and denominator.\<close>

record MultiTenantManagerStats =
  totalUsers :: nat
  activeInstances :: nat
  totalConnections :: int
  usersWithPendingRequests :: nat
  cacheHitRate :: "nat \<times> nat"
  st_lastSyncAt :: "string option"
  st_syncFailures :: nat

definition getStats :: "manager \<Rightarrow> MultiTenantManagerStats" where
  "getStats m =
     (let busy = filter (\<lambda>i. pendingRequests i > 0) (map snd (userInstances m));
          totalHits = cacheHits m + cacheMisses m
      in \<lparr>totalUsers = length (tokenToUserId m),
          activeInstances = length (userInstances m),
          totalConnections = sum_list (map pendingRequests busy),
          usersWithPendingRequests = length busy,
          cacheHitRate = (if totalHits > 0 then (cacheHits m, totalHits) else (0, 1)),
          st_lastSyncAt = lastSyncAt m,
          st_syncFailures = syncFailures m\<rparr>)"

definition hasToken :: "manager \<Rightarrow> string \<Rightarrow> bool" where
  "hasToken m token = js_map_has (tokenToUserId m) token"

definition getActiveUserIds :: "manager \<Rightarrow> string list" where
  "getActiveUserIds m = map fst (userInstances m)"

subsection \<open>The manager as a transition system\<close>

text \<open>
  One constructor per public method that changes the manager, with the inputs the outside
  world supplies to that call. Each call runs to completion before the next starts: an
  asynchronous method is one step, and what other calls could do while it awaits is
  outside the model. \<^verbatim>\<open>start\<close> and \<^verbatim>\<open>stop\<close> only arm and cancel the timer whose tick is
  the \<open>Cleanup\<close> step. A call that throws leaves the state as it was when it threw.
\<close>

datatype op =
    AuthenticateSync string
  | Authenticate verify_env string
  | GetUserInstance bool int "error + OpenClawConfig option" string
  | UpdateUserConfigs "string \<Rightarrow> bool" string "CloudUserConfig list"
  | RecordSyncFailure string
  | IncrementPending int string
  | DecrementPending int string
  | Cleanup int
  | ForceEvict string

fun exec :: "global_config \<Rightarrow> op \<Rightarrow> manager \<Rightarrow> manager" where
  "exec g (AuthenticateSync token) m = snd (authenticateToken_sync token m)"
| "exec g (Authenticate env token) m = snd (authenticateToken g env token m)"
| "exec g (GetUserInstance dirs_ok t disk uid) m = snd (getUserInstance g dirs_ok t disk uid m)"
| "exec g (UpdateUserConfigs write_ok stamp configs) m =
     snd (updateUserConfigs g write_ok stamp configs m)"
| "exec g (RecordSyncFailure err) m = recordSyncFailure err m"
| "exec g (IncrementPending t uid) m =
     (case incrementPendingRequests t uid m of Inl e \<Rightarrow> m | Inr m' \<Rightarrow> m')"
| "exec g (DecrementPending t uid) m =
     (case decrementPendingRequests t uid m of Inl e \<Rightarrow> m | Inr m' \<Rightarrow> m')"
| "exec g (Cleanup t) m = cleanupInactiveUsers t m"
| "exec g (ForceEvict uid) m =
     (case forceEvictUser uid m of Inl e \<Rightarrow> m | Inr r \<Rightarrow> snd r)"

definition run :: "global_config \<Rightarrow> op list \<Rightarrow> manager \<Rightarrow> manager" where
  "run g ops m = foldl (\<lambda>s o1. exec g o1 s) m ops"

inductive reachable :: "global_config \<Rightarrow> manager \<Rightarrow> bool" for g :: global_config where
  init: "reachable g (new_manager opts)"
| step: "reachable g m \<Longrightarrow> reachable g (exec g o1 m)"

section \<open>The configuration synchronizer\<close>

text \<open>
  Source: class \<^verbatim>\<open>ConfigSyncService\<close> (last part of \<^verbatim>\<open>gateway/multi-tenant/auth.ts\<close>). Delays are
  whole, non-negative milliseconds. The armed timer is the delay it was last set with;
  arming clears the timer before. The outcome of \<^verbatim>\<open>fetchConfigs\<close> is an input:
  the error message when it throws, the parsed response otherwise.
\<close>

record sync_options =
  syncIntervalMs :: nat
  initialRetryDelayMs :: nat
  maxRetryDelayMs :: nat
  alertThreshold :: nat

record ConfigSyncResponse =
  users :: "CloudUserConfig list"
  syncTimestamp :: string
  hasMore :: bool
  nextCursor :: "string option"

record sync_result =
  success :: bool
  usersUpdated :: nat
  sr_error :: "string option"

record sync_service =
  sopts :: sync_options
  syncTimer :: "nat option"
  lastSyncTimestamp :: "string option"
  consecutiveFailures :: nat
  currentRetryDelay :: nat
  isRunning :: bool
  isSyncing :: bool
  alerts :: "nat list"

definition new_sync_service :: "sync_options \<Rightarrow> sync_service" where
  "new_sync_service opts =
     \<lparr>sopts = opts, syncTimer = None, lastSyncTimestamp = None, consecutiveFailures = 0,
      currentRetryDelay = initialRetryDelayMs opts, isRunning = False, isSyncing = False,
      alerts = []\<rparr>"

definition scheduleSync :: "nat \<Rightarrow> sync_service \<Rightarrow> sync_service" where
  "scheduleSync delayMs svc = (if \<not> isRunning svc then svc else svc\<lparr>syncTimer := Some delayMs\<rparr>)"

definition scheduleNextSync :: "sync_service \<Rightarrow> sync_service" where
  "scheduleNextSync svc =
     (if \<not> isRunning svc then svc
      else if consecutiveFailures svc > 0 then scheduleSync (currentRetryDelay svc) svc
      else scheduleSync (syncIntervalMs (sopts svc)) svc)"

definition sync_start :: "sync_service \<Rightarrow> sync_service" where
  "sync_start svc = (if isRunning svc then svc else scheduleSync 0 (svc\<lparr>isRunning := True\<rparr>))"

definition doSync ::
  "global_config \<Rightarrow> (string \<Rightarrow> bool) \<Rightarrow> string \<Rightarrow> (string + ConfigSyncResponse)
     \<Rightarrow> sync_service \<times> manager \<Rightarrow> sync_result \<times> sync_service \<times> manager" where
  "doSync g write_ok stamp outcome sm =
     (let svc = fst sm; mgr = snd sm
      in if isSyncing svc
         then (\<lparr>success = False, usersUpdated = 0, sr_error = Some ''sync_in_progress''\<rparr>, svc, mgr)
         else
           (case outcome of
              Inr response \<Rightarrow>
                (let r = updateUserConfigs g write_ok stamp (users response) mgr;
                     svc1 = svc\<lparr>lastSyncTimestamp := Some (syncTimestamp response),
                               consecutiveFailures := 0,
                               currentRetryDelay := initialRetryDelayMs (sopts svc)\<rparr>;
                     svc2 = (if hasMore response \<and> nextCursor response \<noteq> None
                                \<and> nextCursor response \<noteq> Some []
                             then scheduleSync 100 svc1 else svc1)
                 in (\<lparr>success = True, usersUpdated = fst r, sr_error = None\<rparr>,
                     svc2\<lparr>isSyncing := False\<rparr>, snd r))
            | Inl errorMessage \<Rightarrow>
                (let svc1 = svc\<lparr>consecutiveFailures := consecutiveFailures svc + 1\<rparr>;
                     mgr1 = recordSyncFailure errorMessage mgr;
                     svc2 = svc1\<lparr>currentRetryDelay :=
                                   min (currentRetryDelay svc1 * 2) (maxRetryDelayMs (sopts svc1))\<rparr>;
                     svc3 = (if consecutiveFailures svc2 \<ge> alertThreshold (sopts svc2)
                             then svc2\<lparr>alerts := alerts svc2 @ [consecutiveFailures svc2]\<rparr>
                             else svc2)
                 in (\<lparr>success = False, usersUpdated = 0, sr_error = Some errorMessage\<rparr>,
                     svc3\<lparr>isSyncing := False\<rparr>, mgr1))))"

text \<open>The timer callback of \<^verbatim>\<open>scheduleSync\<close>: \<^verbatim>\<open>await this.doSync(); this.scheduleNextSync()\<close>.\<close>

definition sync_tick ::
  "global_config \<Rightarrow> (string \<Rightarrow> bool) \<Rightarrow> string \<Rightarrow> (string + ConfigSyncResponse)
     \<Rightarrow> sync_service \<times> manager \<Rightarrow> sync_service \<times> manager" where
  "sync_tick g write_ok stamp outcome sm =
     (let r = doSync g write_ok stamp outcome sm
      in (scheduleNextSync (fst (snd r)), snd (snd r)))"

text \<open>\<open>k\<close> timer callbacks in a row whose fetch fails.\<close>

fun failing_ticks ::
  "global_config \<Rightarrow> nat \<Rightarrow> sync_service \<times> manager \<Rightarrow> sync_service \<times> manager" where
  "failing_ticks g 0 sm = sm"
| "failing_ticks g (Suc k) sm =
     sync_tick g (\<lambda>u. True) [] (Inl ''HTTP 503: unavailable'') (failing_ticks g k sm)"

text \<open>The delay the specification gives for the retry after the \<open>k\<close>-th failure in a row.\<close>

definition spec_retry_delay :: "sync_options \<Rightarrow> nat \<Rightarrow> nat" where
  "spec_retry_delay opts k = min (initialRetryDelayMs opts * 2 ^ (k - 1)) (maxRetryDelayMs opts)"

section \<open>The workspace file resolver\<close>

text \<open>
  Source: \<^verbatim>\<open>createWorkspaceFileResolver\<close> (second part of
  \<^verbatim>\<open>agents/pi-embedded-runner/run-multi-tenant.ts\<close>). The filesystem
  is what \<^verbatim>\<open>fs.readFile\<close> answers for a path. The eight filename constants are imported
  from \<^verbatim>\<open>./workspace.js\<close>, which is not part of the sources at hand; they are parameters.
\<close>

datatype read_outcome =
    ReadOk string     \<comment> \<open>the file's content\<close>
  | ENOENT            \<comment> \<open>no such file\<close>
  | ReadFault         \<comment> \<open>any other fault: a directory, no permission, ...\<close>

definition tryReadFile :: "(string \<Rightarrow> read_outcome) \<Rightarrow> string \<Rightarrow> error + string option" where
  "tryReadFile fs filePath =
     (case fs filePath of
        ReadOk c \<Rightarrow> Inr (Some c)
      | ENOENT \<Rightarrow> Inr None
      | ReadFault \<Rightarrow> Inl StorageError)"

record bootstrap_filenames =
  DEFAULT_AGENTS_FILENAME :: string
  DEFAULT_SOUL_FILENAME :: string
  DEFAULT_TOOLS_FILENAME :: string
  DEFAULT_IDENTITY_FILENAME :: string
  DEFAULT_USER_FILENAME :: string
  DEFAULT_HEARTBEAT_FILENAME :: string
  DEFAULT_BOOTSTRAP_FILENAME :: string
  DEFAULT_MEMORY_FILENAME :: string

definition nl :: string where
  "nl = [CHR 0x0A]"

definition DEFAULT_FILE_CONTENT :: "bootstrap_filenames \<Rightarrow> (string \<times> string) list" where
  "DEFAULT_FILE_CONTENT n =
     [(DEFAULT_AGENTS_FILENAME n,
         ''# Agent Configuration'' @ nl @ nl
         @ ''This file configures your AI agent'' @ [CHR 0x27]
         @ ''s behavior and capabilities.'' @ nl),
      (DEFAULT_SOUL_FILENAME n,
         ''# Soul'' @ nl @ nl
         @ ''Define your agent'' @ [CHR 0x27] @ ''s personality and communication style.'' @ nl),
      (DEFAULT_TOOLS_FILENAME n,
         ''# Tools'' @ nl @ nl @ ''Configure available tools and their permissions.'' @ nl),
      (DEFAULT_IDENTITY_FILENAME n,
         ''# Identity'' @ nl @ nl
         @ ''Define your agent'' @ [CHR 0x27] @ ''s identity and role.'' @ nl),
      (DEFAULT_USER_FILENAME n,
         ''# User'' @ nl @ nl @ ''Information about the user for personalization.'' @ nl),
      (DEFAULT_HEARTBEAT_FILENAME n,
         ''# Heartbeat'' @ nl @ nl @ ''Scheduled tasks and periodic actions.'' @ nl),
      (DEFAULT_BOOTSTRAP_FILENAME n,
         ''# Bootstrap'' @ nl @ nl @ ''Initial setup and onboarding instructions.'' @ nl),
      (DEFAULT_MEMORY_FILENAME n,
         ''# Memory'' @ nl @ nl
         @ ''Agent'' @ [CHR 0x27] @ ''s persistent memory and learned information.'' @ nl)]"

text \<open>
  \<^verbatim>\<open>DEFAULT_FILE_CONTENT[safeName]\<close> is a property read on an object literal: an own
  property wins (the last one written, should two constants coincide), and a name that
  \<^verbatim>\<open>Object.prototype\<close> defines reads as that inherited member, which is not a string.
\<close>

datatype property_read = OwnString string | InheritedMember | Undefined

definition Object_prototype_names :: "string list" where
  "Object_prototype_names =
     [''constructor'', ''toString'', ''toLocaleString'', ''valueOf'', ''hasOwnProperty'',
      ''isPrototypeOf'', ''propertyIsEnumerable'', ''__proto__'', ''__defineGetter__'',
      ''__defineSetter__'', ''__lookupGetter__'', ''__lookupSetter__'']"

definition default_content :: "bootstrap_filenames \<Rightarrow> string \<Rightarrow> property_read" where
  "default_content n safeName =
     (case map_of (rev (DEFAULT_FILE_CONTENT n)) safeName of
        Some c \<Rightarrow> OwnString c
      | None \<Rightarrow> if safeName \<in> set Object_prototype_names then InheritedMember else Undefined)"

definition customDir :: "WorkspaceFileResolver \<Rightarrow> string" where
  "customDir r = path_join [r_workspacePath r, ''custom'']"

definition customPath :: "WorkspaceFileResolver \<Rightarrow> string \<Rightarrow> string" where
  "customPath r filename = path_join [customDir r, path_basename filename]"

definition templateFilePath :: "WorkspaceFileResolver \<Rightarrow> string \<Rightarrow> string" where
  "templateFilePath r filename = path_join [r_templatePath r, path_basename filename]"

text \<open>
  What \<^verbatim>\<open>readWorkspaceFile\<close> resolves to: a string, \<^verbatim>\<open>null\<close>, or the inherited member the
  last step can hand back in place of a string.
\<close>

datatype read_result = Content string | NotFound | NotAString string

definition readWorkspaceFile ::
  "bootstrap_filenames \<Rightarrow> (string \<Rightarrow> read_outcome) \<Rightarrow> WorkspaceFileResolver \<Rightarrow> string
     \<Rightarrow> error + read_result" where
  "readWorkspaceFile n fs r filename =
     (let safeName = path_basename filename
      in case tryReadFile fs (path_join [customDir r, safeName]) of
           Inl e \<Rightarrow> Inl e
         | Inr (Some customContent) \<Rightarrow> Inr (Content customContent)
         | Inr None \<Rightarrow>
             (case tryReadFile fs (path_join [r_templatePath r, safeName]) of
                Inl e \<Rightarrow> Inl e
              | Inr (Some templateContent) \<Rightarrow> Inr (Content templateContent)
              | Inr None \<Rightarrow>
                  (case default_content n safeName of
                     OwnString defaultContent \<Rightarrow>
                       if defaultContent \<noteq> [] then Inr (Content defaultContent) else Inr NotFound
                   | InheritedMember \<Rightarrow> Inr (NotAString safeName)
                   | Undefined \<Rightarrow> Inr NotFound)))"

section \<open>Invariants, specification-level definitions, and sample data\<close>

subsection \<open>Representation invariants of the manager\<close>

text \<open>
  The keys of a \<^verbatim>\<open>Map\<close> are distinct; every key of the instance cache and every value of
  the token index went through \<^verbatim>\<open>sanitizeUserId\<close>; no counter is negative.
\<close>

definition keys_ok :: "manager \<Rightarrow> bool" where
  "keys_ok m \<longleftrightarrow>
     distinct (map fst (userInstances m))
     \<and> list_all (\<lambda>e. sanitizeUserId (fst e) = Inr (fst e)) (userInstances m)
     \<and> list_all (\<lambda>e. sanitizeUserId (snd e) = Inr (snd e)) (tokenToUserId m)"

definition pending_nonneg :: "manager \<Rightarrow> bool" where
  "pending_nonneg m \<longleftrightarrow> list_all (\<lambda>e. 0 \<le> pendingRequests (snd e)) (userInstances m)"

definition manager_inv :: "manager \<Rightarrow> bool" where
  "manager_inv m \<longleftrightarrow> keys_ok m \<and> pending_nonneg m"

subsection \<open>Counting the counter operations on one user\<close>

definition is_counter_op :: "op \<Rightarrow> bool" where
  "is_counter_op o1 =
     (case o1 of IncrementPending t x \<Rightarrow> True | DecrementPending t x \<Rightarrow> True | _ \<Rightarrow> False)"

definition increments :: "string \<Rightarrow> op \<Rightarrow> bool" where
  "increments u o1 =
     (case o1 of IncrementPending t x \<Rightarrow> sanitizeUserId x = Inr u | _ \<Rightarrow> False)"

definition decrements :: "string \<Rightarrow> op \<Rightarrow> bool" where
  "decrements u o1 =
     (case o1 of DecrementPending t x \<Rightarrow> sanitizeUserId x = Inr u | _ \<Rightarrow> False)"

text \<open>
  Every decrement on \<open>u\<close> has its increment before it: starting from \<open>c\<close> open requests,
  no prefix of the sequence holds more decrements than \<open>c\<close> plus its increments.
\<close>

fun matching :: "string \<Rightarrow> nat \<Rightarrow> op list \<Rightarrow> bool" where
  "matching u c [] = True"
| "matching u c (o1 # os) =
     (if increments u o1 then matching u (c + 1) os
      else if decrements u o1 then c > 0 \<and> matching u (c - 1) os
      else matching u c os)"

definition pending_of :: "manager \<Rightarrow> string \<Rightarrow> int option" where
  "pending_of m u = map_option pendingRequests (js_map_get (userInstances m) u)"

subsection \<open>The cleanup passes as the specification words them\<close>

text \<open>
  Idle pass: each instance with \<^verbatim>\<open>pendingRequests == 0\<close> and
  \<^verbatim>\<open>now - lastActivityAt > userIdleTimeoutMs\<close> is evicted, in iteration order.
\<close>

definition spec_idle_victims :: "int \<Rightarrow> int \<Rightarrow> (string \<times> UserInstance) list \<Rightarrow> string list" where
  "spec_idle_victims t idleTimeout xs =
     map fst (filter (\<lambda>e. pendingRequests (snd e) = 0
                           \<and> t - lastActivityAt (snd e) > idleTimeout) xs)"

text \<open>The users the first loop of the code evicts: its two tests, as written there.\<close>

definition idle_victims :: "int \<Rightarrow> int \<Rightarrow> (string \<times> UserInstance) list \<Rightarrow> string list" where
  "idle_victims t idleTimeout xs =
     map fst (filter (\<lambda>e. \<not> pendingRequests (snd e) > 0
                           \<and> t - lastActivityAt (snd e) > idleTimeout) xs)"

text \<open>
  LRU pass: the instance with the oldest \<^verbatim>\<open>lastActivityAt\<close> among those with
  \<^verbatim>\<open>pendingRequests == 0\<close>, the first encountered when several share it; none when every
  instance has pending work.
\<close>

definition spec_lru_candidates :: "(string \<times> UserInstance) list \<Rightarrow> (string \<times> int) list" where
  "spec_lru_candidates xs =
     map (\<lambda>e. (fst e, lastActivityAt (snd e))) (filter (\<lambda>e. pendingRequests (snd e) = 0) xs)"

definition spec_first_oldest :: "(string \<times> int) list \<Rightarrow> string option" where
  "spec_first_oldest cs = map_option fst (find (\<lambda>c. list_all (\<lambda>c'. snd c \<le> snd c') cs) cs)"

definition spec_lru_victim :: "(string \<times> UserInstance) list \<Rightarrow> string option" where
  "spec_lru_victim xs = spec_first_oldest (spec_lru_candidates xs)"

subsection \<open>Sample data\<close>

definition sample_config :: global_config where
  "sample_config = \<lparr>cfg_workspaceRoot = ''/srv/ws'', cfg_configRoot = ''/srv/cfg'',
                     cfg_templatePath = ''/srv/tpl''\<rparr>"

definition DEFAULT_options :: manager_options where
  "DEFAULT_options = \<lparr>maxCachedUsers = 100, userIdleTimeoutMs = 3600000,
                       cloudBackendUrl = [], templatePath = DEFAULT_templatePath\<rparr>"

definition sample_options :: manager_options where
  "sample_options = \<lparr>maxCachedUsers = 2, userIdleTimeoutMs = 1000,
                      cloudBackendUrl = ''https://cloud.example'', templatePath = ''/srv/tpl''\<rparr>"

text \<open>The backend accepts a token for user \<open>uid\<close> with the given status, at time \<open>t\<close>.\<close>

definition verified :: "string \<Rightarrow> string \<Rightarrow> int \<Rightarrow> verify_env" where
  "verified uid st t =
     \<lparr>url_parses = True,
      fetched = Response 200 (Json (Some \<lparr>user_id = uid, vr_status = Some st,
                                            openclaw_config = ''{}''\<rparr>)),
      mkdir_ok = True, now = t, now_iso = ''2026-01-01T00:00:00.000Z''\<rparr>"

definition answering :: "fetch_result \<Rightarrow> verify_env" where
  "answering r = \<lparr>url_parses = True, fetched = r, mkdir_ok = True, now = 0,
                  now_iso = ''2026-01-01T00:00:00.000Z''\<rparr>"

definition sample_instance :: "string \<Rightarrow> int \<Rightarrow> int \<Rightarrow> UserInstance" where
  "sample_instance uid t p =
     \<lparr>userId = uid, config = ''{}'', workspacePath = ''/srv/ws/users/'' @ uid,
      configPath = ''/srv/cfg/users/'' @ uid @ ''/config.json'',
      lastActivityAt = t, pendingRequests = p, status = Some ''active'', llmApiKey = None\<rparr>"

definition DEFAULT_sync_options :: sync_options where
  "DEFAULT_sync_options = \<lparr>syncIntervalMs = 300000, initialRetryDelayMs = 1000,
                            maxRetryDelayMs = 300000, alertThreshold = 5\<rparr>"

definition sample_filenames :: bootstrap_filenames where
  "sample_filenames =
     \<lparr>DEFAULT_AGENTS_FILENAME = ''AGENTS.md'', DEFAULT_SOUL_FILENAME = ''SOUL.md'',
      DEFAULT_TOOLS_FILENAME = ''TOOLS.md'', DEFAULT_IDENTITY_FILENAME = ''IDENTITY.md'',
      DEFAULT_USER_FILENAME = ''USER.md'', DEFAULT_HEARTBEAT_FILENAME = ''HEARTBEAT.md'',
      DEFAULT_BOOTSTRAP_FILENAME = ''BOOTSTRAP.md'', DEFAULT_MEMORY_FILENAME = ''MEMORY.md''\<rparr>"

text \<open>A manager that has verified one token and loaded its user at time 10.\<close>

definition loaded_manager :: manager where
  "loaded_manager =
     run sample_config [Authenticate (verified ''u-1'' ''active'' 10) ''gt_abc'']
       (new_manager sample_options)"

text \<open>The same manager with one request of \<^verbatim>\<open>u-1\<close> in flight.\<close>

definition busy_manager :: manager where
  "busy_manager =
     run sample_config
       [Authenticate (verified ''u-1'' ''active'' 10) ''gt_abc'', IncrementPending 20 ''u-1'']
       (new_manager sample_options)"

text \<open>Managers whose only user was reported suspended, respectively expired, by the backend.\<close>

definition expired_manager :: manager where
  "expired_manager =
     run sample_config [Authenticate (verified ''u-3'' ''expired'' 10) ''gt_e'']
       (new_manager sample_options)"


definition suspended_manager :: manager where
  "suspended_manager =
     run sample_config [Authenticate (verified ''u-2'' ''suspended'' 10) ''gt_s'']
       (new_manager sample_options)"

text \<open>
  Three idle users loaded at times 1, 2 and 3 and a cap of two (scenario S5 of the
  specification), and the same with a fourth, busy user and an idle timeout of 1000.
\<close>

definition three_users :: manager where
  "three_users =
     (new_manager sample_options)
       \<lparr>userInstances := [(''u-a'', sample_instance ''u-a'' 1 0),
                          (''u-b'', sample_instance ''u-b'' 2 0),
                          (''u-c'', sample_instance ''u-c'' 3 0)]\<rparr>"

definition four_users :: manager where
  "four_users =
     run sample_config
       [Authenticate (verified ''u-a'' ''active'' 10) ''gt_a'',
        Authenticate (verified ''u-b'' ''active'' 2000) ''gt_b'',
        Authenticate (verified ''u-c'' ''active'' 2000) ''gt_c'',
        Authenticate (verified ''u-d'' ''active'' 20) ''gt_d'',
        IncrementPending 30 ''u-d'']
       (new_manager sample_options)"

text \<open>Scenario S6 of the specification: initial delay 1 s, cap 8 s, alert after 4 failures.\<close>

definition S6_sync_options :: sync_options where
  "S6_sync_options = \<lparr>syncIntervalMs = 300000, initialRetryDelayMs = 1000,
                       maxRetryDelayMs = 8000, alertThreshold = 4\<rparr>"

text \<open>
  A resolver for \<^verbatim>\<open>u-1\<close> and a filesystem that holds \<^verbatim>\<open>AGENTS.md\<close> in the custom layer
  when \<open>c\<close> says so and in the template layer when \<open>t\<close> says so.
\<close>

definition sample_resolver :: WorkspaceFileResolver where
  "sample_resolver = createWorkspaceFileResolver sample_config ''u-1'' ''/srv/ws/users/u-1'' None"

definition sample_fs :: "bool \<Rightarrow> bool \<Rightarrow> string \<Rightarrow> read_outcome" where
  "sample_fs c t p =
     (if c \<and> p = ''/srv/ws/users/u-1/custom/AGENTS.md'' then ReadOk ''custom agents''
      else if t \<and> p = ''/srv/tpl/AGENTS.md'' then ReadOk ''template agents''
      else ENOENT)"

section \<open>Properties of the tenant paths\<close>

subsection \<open>The sanitizer\<close>

lemma is_allowed_underscore: "is_allowed (CHR ''_'')"
  by (simp add: is_allowed_def)

lemma replace_disallowed_allowed: "c \<in> set (replace_disallowed s) \<Longrightarrow> is_allowed c"
  by (auto simp: replace_disallowed_def is_allowed_underscore)

lemma allowed_not_special:
  "is_allowed c \<Longrightarrow> c \<noteq> CHR ''/'' \<and> c \<noteq> CHR 0x5C \<and> c \<noteq> CHR ''.''"
  by (auto simp: is_allowed_def)

lemma remove_dotdot_no_dot: "CHR ''.'' \<notin> set s \<Longrightarrow> remove_dotdot s = s"
  by (induction s rule: remove_dotdot.induct) auto

lemma remove_dotdot_prefix:
  "CHR ''.'' \<notin> set xs \<Longrightarrow> remove_dotdot (xs @ ys) = xs @ remove_dotdot ys"
proof (induction xs)
  case Nil then show ?case by simp
next
  case (Cons x xs)
  then have x: "x \<noteq> CHR ''.''" and ih: "remove_dotdot (xs @ ys) = xs @ remove_dotdot ys" by auto
  show ?case
  proof (cases "xs @ ys")
    case Nil then show ?thesis by simp
  next
    case (Cons b rest)
    then have "remove_dotdot ((x # xs) @ ys) = x # remove_dotdot (xs @ ys)"
      using x by simp
    then show ?thesis using ih by simp
  qed
qed

lemma remove_dotdot_length: "length (remove_dotdot s) \<le> length s"
  by (induction s rule: remove_dotdot.induct) auto

lemma sanitized_length: "length (sanitized s) \<le> length s"
proof -
  have "length (sanitized s) \<le> length (remove_dotdot s)"
    by (simp add: sanitized_def replace_disallowed_def remove_separators_def)
  then show ?thesis using remove_dotdot_length [of s] by linarith
qed

lemma sanitized_allowed: "c \<in> set (sanitized s) \<Longrightarrow> is_allowed c"
  unfolding sanitized_def by (rule replace_disallowed_allowed)

lemma sanitized_fixed: "\<forall>c\<in>set r. is_allowed c \<Longrightarrow> sanitized r = r"
proof -
  assume a: "\<forall>c\<in>set r. is_allowed c"
  then have "CHR ''.'' \<notin> set r" using allowed_not_special by blast
  then have 1: "remove_dotdot r = r" by (rule remove_dotdot_no_dot)
  have 2: "remove_separators r = r"
    unfolding remove_separators_def using a allowed_not_special
    by (auto simp: is_separator_def filter_id_conv)
  have 3: "replace_disallowed r = r"
    unfolding replace_disallowed_def using a by (simp add: map_idI)
  show ?thesis by (simp add: sanitized_def 1 2 3)
qed

lemma sanitizeUserId_Inr: "sanitizeUserId s = Inr r \<Longrightarrow> r = sanitized s \<and> r \<noteq> [] \<and> length r \<le> 128"
  by (auto simp: sanitizeUserId_def split: if_splits)

lemma sanitizeUserId_idem: "sanitizeUserId s = Inr r \<Longrightarrow> sanitizeUserId r = Inr r"
proof -
  assume a: "sanitizeUserId s = Inr r"
  then have r: "r = sanitized s" "r \<noteq> []" "length r \<le> 128" using sanitizeUserId_Inr by auto
  then have "sanitized r = r" using sanitized_allowed sanitized_fixed by blast
  then show ?thesis using r by (simp add: sanitizeUserId_def)
qed

lemma remove_dotdot_not_dot: "c \<noteq> CHR ''.'' \<Longrightarrow> remove_dotdot (c # s) = c # remove_dotdot s"
  by (cases s) simp_all

lemma remove_dotdot_lone_dot:
  "c \<noteq> CHR ''.'' \<Longrightarrow> remove_dotdot (CHR ''.'' # c # s) = CHR ''.'' # remove_dotdot (c # s)"
  by simp

lemma remove_dotdot_even_dots: "remove_dotdot (replicate (2 * k) (CHR ''.'') @ t) = remove_dotdot t"
  by (induction k) simp_all

lemma remove_dotdot_last_dot:
  "t = [] \<or> hd t \<noteq> CHR ''.'' \<Longrightarrow> remove_dotdot (CHR ''.'' # t) = CHR ''.'' # remove_dotdot t"
  by (cases t) auto

lemma remove_dotdot_dot_run:
  assumes "ys = [] \<or> hd ys \<noteq> CHR ''.''"
  shows "remove_dotdot (replicate n (CHR ''.'') @ ys)
         = replicate (n mod 2) (CHR ''.'') @ remove_dotdot ys"
proof (cases "even n")
  case True
  then obtain k where "n = 2 * k" by (auto elim: evenE)
  then show ?thesis using remove_dotdot_even_dots [of k ys] by simp
next
  case False
  then obtain k where n: "n = 2 * k + 1" by (auto elim: oddE)
  have "replicate n (CHR ''.'') @ ys = replicate (2 * k) (CHR ''.'') @ (CHR ''.'' # ys)"
    unfolding n by (simp add: replicate_add [symmetric] replicate_append_same del: replicate_add)
  then have "remove_dotdot (replicate n (CHR ''.'') @ ys) = remove_dotdot (CHR ''.'' # ys)"
    using remove_dotdot_even_dots [of k "CHR ''.'' # ys"] by simp
  then show ?thesis using remove_dotdot_last_dot [OF assms] n by simp
qed

lemma remove_dotdot_append:
  "xs = [] \<or> last xs \<noteq> CHR ''.'' \<Longrightarrow> remove_dotdot (xs @ zs) = remove_dotdot xs @ remove_dotdot zs"
proof (induction xs rule: remove_dotdot.induct)
  case (1 a b rest)
  have l: "rest = [] \<or> last rest \<noteq> CHR ''.''" "last (b # rest) \<noteq> CHR ''.''"
    using "1.prems" by (auto split: if_splits)
  show ?case
  proof (cases "a = CHR ''.'' \<and> b = CHR ''.''")
    case True
    then show ?thesis using "1.IH"(1) l(1) by simp
  next
    case False
    then show ?thesis using "1.IH"(2) l(2) by auto
  qed
qed (simp_all add: remove_dotdot_not_dot)

lemma sanitized_dot_run:
  assumes "xs = [] \<or> last xs \<noteq> CHR ''.''" and "ys = [] \<or> hd ys \<noteq> CHR ''.''"
  shows "sanitized (xs @ replicate n (CHR ''.'') @ ys)
         = sanitized xs @ replicate (n mod 2) (CHR ''_'') @ sanitized ys"
proof -
  have "remove_dotdot (xs @ replicate n (CHR ''.'') @ ys)
        = remove_dotdot xs @ replicate (n mod 2) (CHR ''.'') @ remove_dotdot ys"
    using remove_dotdot_append [OF assms(1)] remove_dotdot_dot_run [OF assms(2)] by simp
  then show ?thesis
    by (simp add: sanitized_def replace_disallowed_def remove_separators_def is_separator_def
        is_allowed_def)
qed

lemma sanitized_Cons:
  "c \<noteq> CHR ''.'' \<Longrightarrow>
     sanitized (c # s) = (if c = CHR ''/'' \<or> c = CHR 0x5C then sanitized s
                          else (if is_allowed c then c else CHR ''_'') # sanitized s)"
  by (simp add: sanitized_def remove_dotdot_not_dot replace_disallowed_def remove_separators_def
      is_separator_def)

lemma sanitized_lone_dot:
  "c \<noteq> CHR ''.'' \<Longrightarrow> sanitized (CHR ''.'' # c # s) = CHR ''_'' # sanitized (c # s)"
  by (simp add: sanitized_def replace_disallowed_def remove_separators_def
      is_separator_def is_allowed_def)

lemma sanitized_dotdot: "sanitized (CHR ''.'' # CHR ''.'' # s) = sanitized s"
  by (simp add: sanitized_def)

lemma sanitized_ends: "sanitized [] = []" "sanitized ''.'' = ''_''"
  by (simp_all add: sanitized_def replace_disallowed_def remove_separators_def
      is_separator_def is_allowed_def)

text \<open>
  Claim C6, as the code has it. \<^verbatim>\<open>sanitizeUserId\<close> fails exactly when the sanitized string is
  empty (first error) or longer than 128 (second error); when it succeeds it returns the
  sanitized string, which is not empty, at most 128 long and made of \<^verbatim>\<open>[A-Za-z0-9_-]\<close>
  only. The sanitized string is fixed for every input:
  \<^item> without dots, it is the input with the path separators \<^emph>\<open>deleted\<close> (not mapped to
    \<^verbatim>\<open>_\<close>) and every other character outside the class replaced by \<^verbatim>\<open>_\<close>;
  \<^item> a \<^verbatim>\<open>..\<close> is deleted, and more generally a maximal run of \<open>n\<close> dots leaves
    \<open>n mod 2\<close> underscores: the dots are deleted in pairs from the left and a dot left
    alone is replaced by \<^verbatim>\<open>_\<close> like any other character outside the class;
  \<^item> the last five conjuncts are the sanitizer read from the left, one equation for each
    way a string can begin (empty; a single dot; two dots; a dot and another character;
    a character that is no dot), so that no other function satisfies them.
\<close>

theorem sanitizeUserId_deletes_then_replaces:
  "((\<exists>e. sanitizeUserId s = Inl e) \<longleftrightarrow> sanitized s = [] \<or> length (sanitized s) > 128)
   \<and> (sanitizeUserId s = Inl InvalidUserId_empty \<longleftrightarrow> sanitized s = [])
   \<and> (sanitizeUserId s = Inl InvalidUserId_too_long \<longleftrightarrow> length (sanitized s) > 128)
   \<and> (\<forall>r. sanitizeUserId s = Inr r \<longrightarrow>
          r = sanitized s \<and> r \<noteq> [] \<and> length r \<le> 128 \<and> (\<forall>c\<in>set r. is_allowed c))
   \<and> (CHR ''.'' \<notin> set s \<longrightarrow>
          sanitized s = map (\<lambda>c. if is_allowed c then c else CHR ''_'')
                          (filter (\<lambda>c. c \<noteq> CHR ''/'' \<and> c \<noteq> CHR 0x5C) s))
   \<and> (\<forall>xs ys. s = xs @ ''..'' @ ys \<and> CHR ''.'' \<notin> set xs \<longrightarrow> sanitized s = sanitized (xs @ ys))
   \<and> (\<forall>xs n ys. s = xs @ replicate n (CHR ''.'') @ ys
          \<and> (xs = [] \<or> last xs \<noteq> CHR ''.'') \<and> (ys = [] \<or> hd ys \<noteq> CHR ''.'')
          \<longrightarrow> sanitized s = sanitized xs @ replicate (n mod 2) (CHR ''_'') @ sanitized ys)
   \<and> sanitized [] = []
   \<and> sanitized ''.'' = ''_''
   \<and> sanitized (''..'' @ s) = sanitized s
   \<and> (\<forall>c. c \<noteq> CHR ''.'' \<longrightarrow> sanitized (CHR ''.'' # c # s) = CHR ''_'' # sanitized (c # s))
   \<and> (\<forall>c. c \<noteq> CHR ''.'' \<longrightarrow>
          sanitized (c # s) = (if c = CHR ''/'' \<or> c = CHR 0x5C then sanitized s
                               else (if is_allowed c then c else CHR ''_'') # sanitized s))"
proof (intro conjI allI impI)
  show "(\<exists>e. sanitizeUserId s = Inl e) \<longleftrightarrow> sanitized s = [] \<or> length (sanitized s) > 128"
    by (auto simp: sanitizeUserId_def)
next
  show "sanitizeUserId s = Inl InvalidUserId_empty \<longleftrightarrow> sanitized s = []"
    by (auto simp: sanitizeUserId_def)
next
  show "sanitizeUserId s = Inl InvalidUserId_too_long \<longleftrightarrow> length (sanitized s) > 128"
    by (auto simp: sanitizeUserId_def)
next
  fix r assume a: "sanitizeUserId s = Inr r"
  show "r = sanitized s" "r \<noteq> []" "length r \<le> 128"
    using sanitizeUserId_Inr [OF a] by auto
  then show "\<forall>c\<in>set r. is_allowed c" using sanitized_allowed by blast
next
  assume "CHR ''.'' \<notin> set s"
  then show "sanitized s = map (\<lambda>c. if is_allowed c then c else CHR ''_'')
                          (filter (\<lambda>c. c \<noteq> CHR ''/'' \<and> c \<noteq> CHR 0x5C) s)"
    by (simp add: sanitized_def remove_dotdot_no_dot replace_disallowed_def
        remove_separators_def is_separator_def)
next
  fix xs ys assume a: "s = xs @ ''..'' @ ys \<and> CHR ''.'' \<notin> set xs"
  then have "remove_dotdot s = xs @ remove_dotdot ys"
    using remove_dotdot_prefix [of xs "''..'' @ ys"] by simp
  moreover have "remove_dotdot (xs @ ys) = xs @ remove_dotdot ys"
    using a remove_dotdot_prefix by blast
  ultimately show "sanitized s = sanitized (xs @ ys)"
    by (simp add: sanitized_def)
next
  fix xs n ys
  assume "s = xs @ replicate n (CHR ''.'') @ ys
          \<and> (xs = [] \<or> last xs \<noteq> CHR ''.'') \<and> (ys = [] \<or> hd ys \<noteq> CHR ''.'')"
  then show "sanitized s = sanitized xs @ replicate (n mod 2) (CHR ''_'') @ sanitized ys"
    using sanitized_dot_run by blast
next
  show "sanitized [] = []" by (rule sanitized_ends)
  show "sanitized ''.'' = ''_''" by (rule sanitized_ends)
  show "sanitized (''..'' @ s) = sanitized s" using sanitized_dotdot by simp
next
  fix c :: char assume "c \<noteq> CHR ''.''"
  then show "sanitized (CHR ''.'' # c # s) = CHR ''_'' # sanitized (c # s)"
    by (rule sanitized_lone_dot)
next
  fix c :: char assume "c \<noteq> CHR ''.''"
  then show "sanitized (c # s) = (if c = CHR ''/'' \<or> c = CHR 0x5C then sanitized s
                               else (if is_allowed c then c else CHR ''_'') # sanitized s)"
    by (rule sanitized_Cons)
qed

text \<open>
  Witness for C6: a separator, a \<^verbatim>\<open>..\<close> and a blank in one input; an input without dots;
  inputs that sanitize to nothing and to more than 128 characters; and the lone dots of
  \<^verbatim>\<open>a.b\<close>, \<^verbatim>\<open>...\<close> and \<^verbatim>\<open>./.\<close>, each of which becomes \<^verbatim>\<open>_\<close>.
\<close>

theorem sanitizeUserId_deletes_then_replaces_witness:
  "sanitizeUserId ''a/../b c'' = Inr ''ab_c'' \<and> sanitized ''a/../b c'' = sanitized ''a//b c''
   \<and> sanitized ''a/b c'' = ''ab_c''
   \<and> sanitizeUserId ''../..'' = Inl InvalidUserId_empty
   \<and> sanitizeUserId ''a.b'' = Inr ''a_b''
   \<and> sanitizeUserId ''...'' = Inr ''_''
   \<and> sanitizeUserId ''./.'' = Inr ''__''
   \<and> sanitizeUserId (replicate 129 (CHR ''a'')) = Inl InvalidUserId_too_long"
proof -
  note T = sanitizeUserId_deletes_then_replaces
  note T1 = T [THEN conjunct1]
  note T2 = T [THEN conjunct2, THEN conjunct1]
  note T3 = T [THEN conjunct2, THEN conjunct2, THEN conjunct1]
  note T4 = T [THEN conjunct2, THEN conjunct2, THEN conjunct2, THEN conjunct1]
  note T5 = T [THEN conjunct2, THEN conjunct2, THEN conjunct2, THEN conjunct2, THEN conjunct1]
  note T6 = T [THEN conjunct2, THEN conjunct2, THEN conjunct2, THEN conjunct2, THEN conjunct2,
               THEN conjunct1]
  note T7 = T [THEN conjunct2, THEN conjunct2, THEN conjunct2, THEN conjunct2, THEN conjunct2,
               THEN conjunct2, THEN conjunct1]
  note T8 = T [THEN conjunct2, THEN conjunct2, THEN conjunct2, THEN conjunct2, THEN conjunct2,
               THEN conjunct2, THEN conjunct2, THEN conjunct1]
  note T9 = T [THEN conjunct2, THEN conjunct2, THEN conjunct2, THEN conjunct2, THEN conjunct2,
               THEN conjunct2, THEN conjunct2, THEN conjunct2, THEN conjunct1]
  note T10 = T [THEN conjunct2, THEN conjunct2, THEN conjunct2, THEN conjunct2, THEN conjunct2,
                THEN conjunct2, THEN conjunct2, THEN conjunct2, THEN conjunct2, THEN conjunct1]
  note T11 = T [THEN conjunct2, THEN conjunct2, THEN conjunct2, THEN conjunct2, THEN conjunct2,
                THEN conjunct2, THEN conjunct2, THEN conjunct2, THEN conjunct2, THEN conjunct2,
                THEN conjunct1]
  note T12 = T [THEN conjunct2, THEN conjunct2, THEN conjunct2, THEN conjunct2, THEN conjunct2,
                THEN conjunct2, THEN conjunct2, THEN conjunct2, THEN conjunct2, THEN conjunct2,
                THEN conjunct2]
  have ok: "sanitizeUserId s = Inr (sanitized s)"
    if "sanitized s \<noteq> []" and "length (sanitized s) \<le> 128" for s
  proof -
    have "\<not> (\<exists>e. sanitizeUserId s = Inl e)" using T1 [of s] that by simp
    then obtain r where r: "sanitizeUserId s = Inr r" by (cases "sanitizeUserId s") auto
    then have "r = sanitized s" using T4 [of s] by blast
    then show ?thesis using r by simp
  qed
  have cons: "sanitized (c # s) = (if c = CHR ''/'' \<or> c = CHR 0x5C then sanitized s
                               else (if is_allowed c then c else CHR ''_'') # sanitized s)"
    if "c \<noteq> CHR ''.''" for c s
    using T12 [of s] that by blast
  have lone: "sanitized (CHR ''.'' # c # s) = CHR ''_'' # sanitized (c # s)"
    if "c \<noteq> CHR ''.''" for c s
    using T11 [of s] that by blast
  have nil: "sanitized [] = []" by (rule T8)
  have dot: "sanitized ''.'' = ''_''" by (rule T9)
  have pair: "sanitized (''..'' @ s) = sanitized s" for s by (rule T10)
  have run: "sanitized (xs @ replicate n (CHR ''.'') @ ys)
             = sanitized xs @ replicate (n mod 2) (CHR ''_'') @ sanitized ys"
    if "xs = [] \<or> last xs \<noteq> CHR ''.''" and "ys = [] \<or> hd ys \<noteq> CHR ''.''" for xs n ys
    using T7 [of "xs @ replicate n (CHR ''.'') @ ys"] that by blast
  have nodot: "sanitized s = map (\<lambda>c. if is_allowed c then c else CHR ''_'')
                          (filter (\<lambda>c. c \<noteq> CHR ''/'' \<and> c \<noteq> CHR 0x5C) s)"
    if "CHR ''.'' \<notin> set s" for s
    using T5 [of s] that by blast
  have del: "sanitized (xs @ ''..'' @ ys) = sanitized (xs @ ys)" if "CHR ''.'' \<notin> set xs" for xs ys
    using T6 [of "xs @ ''..'' @ ys"] that by blast
  have empty: "sanitizeUserId s = Inl InvalidUserId_empty" if "sanitized s = []" for s
    using T2 [of s] that by blast
  have long: "sanitizeUserId s = Inl InvalidUserId_too_long" if "length (sanitized s) > 128" for s
    using T3 [of s] that by blast
  have 2: "sanitized ''a/b c'' = ''ab_c''"
    using nodot [of "''a/b c''"] by (simp add: is_allowed_def)
  have "sanitized (''a/'' @ ''..'' @ ''/b c'') = sanitized (''a/'' @ ''/b c'')"
    by (rule del) simp
  then have 1: "sanitized ''a/../b c'' = sanitized ''a//b c''" by simp
  have "sanitized ''a//b c'' = ''ab_c''"
    using nodot [of "''a//b c''"] by (simp add: is_allowed_def)
  then have e: "sanitizeUserId ''a/../b c'' = Inr ''ab_c''"
    using ok [of "''a/../b c''"] 1 by simp
  have "sanitized ''/..'' = sanitized ''..''" using cons [of "CHR ''/''" "''..''"] by simp
  also have "\<dots> = []" using pair [of "[]"] nil by simp
  finally have "sanitized ''../..'' = []" using pair [of "''/..''"] by simp
  then have 3: "sanitizeUserId ''../..'' = Inl InvalidUserId_empty"
    by (rule empty)
  have "sanitized ''b'' = ''b''" using cons [of "CHR ''b''" "[]"] nil by (simp add: is_allowed_def)
  then have "sanitized ''.b'' = ''_b''" using lone [of "CHR ''b''" "[]"] by simp
  then have "sanitized ''a.b'' = ''a_b''"
    using cons [of "CHR ''a''" "''.b''"] by (simp add: is_allowed_def)
  then have 4: "sanitizeUserId ''a.b'' = Inr ''a_b''" using ok [of "''a.b''"] by simp
  have "sanitized ([] @ replicate 3 (CHR ''.'') @ [])
          = sanitized [] @ replicate (3 mod 2) (CHR ''_'') @ sanitized []"
    by (rule run) simp_all
  then have "sanitized ''...'' = ''_''" using nil by (simp add: numeral_3_eq_3)
  then have 5: "sanitizeUserId ''...'' = Inr ''_''" using ok [of "''...''"] by simp
  have "sanitized ''/.'' = ''_''" using cons [of "CHR ''/''" "''.''"] dot by simp
  then have "sanitized ''./.'' = ''__''" using lone [of "CHR ''/''" "''.''"] by simp
  then have 6: "sanitizeUserId ''./.'' = Inr ''__''" using ok [of "''./.''"] by simp
  have "CHR ''.'' \<notin> set (replicate 129 (CHR ''a''))" by simp
  then have "length (sanitized (replicate 129 (CHR ''a''))) = 129"
    using nodot [of "replicate 129 (CHR ''a'')"] by simp
  then have 7: "sanitizeUserId (replicate 129 (CHR ''a'')) = Inl InvalidUserId_too_long"
    using long [of "replicate 129 (CHR ''a'')"] by simp
  show ?thesis using e 1 2 3 4 5 6 7 by simp
qed

text \<open>
  Counterexample to C6 as stated: on \<^verbatim>\<open>a/b\<close> the specification's wording gives \<^verbatim>\<open>a_b\<close>, the
  code gives \<^verbatim>\<open>ab\<close>.
\<close>

theorem sanitizeUserId_counterexample:
  "sanitizeUserId ''a/b'' = Inr ''ab'' \<and> spec_sanitizeUserId ''a/b'' = Inr ''a_b''"
  by code_simp

subsection \<open>Paths\<close>

lemma split_path_nonempty: "split_path p \<noteq> []"
  by (induction p) (auto split: list.splits)

lemma split_path_plain: "CHR ''/'' \<notin> set seg \<Longrightarrow> split_path seg = [seg]"
  by (induction seg) auto

lemma split_path_snoc:
  "CHR ''/'' \<notin> set seg \<Longrightarrow> split_path (xs @ CHR ''/'' # seg) = split_path xs @ [seg]"
proof (induction xs)
  case Nil
  then show ?case by (simp add: split_path_plain)
next
  case (Cons x xs)
  then show ?case
    using split_path_nonempty [of xs] by (auto split: list.splits)
qed

lemma join_segments_snoc:
  "xs \<noteq> [] \<Longrightarrow> join_segments (xs @ [y]) = join_segments xs @ CHR ''/'' # y"
  by (induction xs rule: join_segments.induct) auto

lemma join_segments_last_nonempty:
  "y \<noteq> [] \<Longrightarrow> join_segments (xs @ [y]) \<noteq> []"
  by (induction xs rule: join_segments.induct) auto

lemma normalize_step_plain:
  "seg \<noteq> [] \<Longrightarrow> CHR ''.'' \<notin> set seg \<Longrightarrow> normalize_step a res seg = seg # res"
  by (auto simp: normalize_step_def)

lemma normalizeString_snoc:
  assumes "seg \<noteq> []" and "CHR ''.'' \<notin> set seg" and "CHR ''/'' \<notin> set seg"
  shows "normalizeString a (xs @ CHR ''/'' # seg)
         = join_segments (rev (foldl (normalize_step a) [] (split_path xs)) @ [seg])"
  using assms by (simp add: normalizeString_def split_path_snoc normalize_step_plain)

lemma path_normalize_snoc:
  assumes seg: "seg \<noteq> []" "CHR ''.'' \<notin> set seg" "CHR ''/'' \<notin> set seg"
    and J: "J \<noteq> []" "last J \<noteq> CHR ''/''" "normalizeString (hd J \<noteq> CHR ''/'') J \<noteq> []"
  shows "path_normalize (J @ CHR ''/'' # seg) = path_normalize J @ CHR ''/'' # seg"
proof -
  let ?a = "hd J \<noteq> CHR ''/''"
  let ?R = "rev (foldl (normalize_step ?a) [] (split_path J))"
  have hd: "hd (J @ CHR ''/'' # seg) = hd J" using J(1) by simp
  have last: "last (J @ CHR ''/'' # seg) = last seg" using seg(1) by simp
  have ls: "last seg \<noteq> CHR ''/''" using seg(1,3) last_in_set by metis
  have R: "?R \<noteq> []" using J(3) by (auto simp: normalizeString_def)
  have q: "normalizeString ?a (J @ CHR ''/'' # seg) = normalizeString ?a J @ CHR ''/'' # seg"
    using normalizeString_snoc [OF seg, of ?a J] R
    by (simp add: join_segments_snoc normalizeString_def)
  show ?thesis
    using J(1,2,3) q hd last ls
    by (simp add: path_normalize_def Let_def)
qed

lemma users_dir_eq:
  "users_dir configured = path_normalize (getMultiTenantWorkspaceRoot configured @ ''/users'')"
  by (auto simp: users_dir_def path_join_def getMultiTenantWorkspaceRoot_def DEFAULT_workspaceRoot_def)

text \<open>
  Claim C7. For every input string, either sanitization fails (and so does the path
  derivation, with the same error), or the workspace path is the users directory
  \<^verbatim>\<open>{workspaceRoot}/users\<close>, a slash, and one more segment that is not empty and holds no
  slash, no backslash and no dot: the path lies strictly inside the users directory.
\<close>

theorem workspace_path_stays_inside_users_dir:
  "(\<exists>e. sanitizeUserId s = Inl e \<and> getUserWorkspacePath configured s = Inl e)
   \<or> (\<exists>id. sanitizeUserId s = Inr id
          \<and> getUserWorkspacePath configured s = Inr (users_dir configured @ ''/'' @ id)
          \<and> id \<noteq> [] \<and> CHR ''/'' \<notin> set id \<and> CHR 0x5C \<notin> set id \<and> CHR ''.'' \<notin> set id)"
proof (cases "sanitizeUserId s")
  case (Inl e)
  then show ?thesis by (simp add: getUserWorkspacePath_def)
next
  case (Inr id)
  let ?root = "getMultiTenantWorkspaceRoot configured"
  let ?J = "?root @ ''/users''"
  have id: "id \<noteq> []" "\<forall>c\<in>set id. is_allowed c"
    using sanitizeUserId_Inr [OF Inr] sanitized_allowed by auto
  then have plain: "CHR ''/'' \<notin> set id" "CHR 0x5C \<notin> set id" "CHR ''.'' \<notin> set id"
    using allowed_not_special by blast+
  have root: "?root \<noteq> []"
    by (simp add: getMultiTenantWorkspaceRoot_def DEFAULT_workspaceRoot_def)
  have J1: "?J \<noteq> []" and J2: "last ?J \<noteq> CHR ''/''" by simp_all
  have "normalizeString (hd ?J \<noteq> CHR ''/'') (?root @ CHR ''/'' # ''users'')
        = join_segments (rev (foldl (normalize_step (hd ?J \<noteq> CHR ''/'')) [] (split_path ?root))
                         @ [''users''])"
    by (rule normalizeString_snoc) simp_all
  then have J3: "normalizeString (hd ?J \<noteq> CHR ''/'') ?J \<noteq> []"
    using join_segments_last_nonempty [of "''users''"] by simp
  have "path_join [?root, ''users'', id] = path_normalize (?J @ CHR ''/'' # id)"
    using root id(1) by (simp add: path_join_def)
  also have "\<dots> = path_normalize ?J @ CHR ''/'' # id"
    using path_normalize_snoc [OF id(1) plain(3) plain(1) J1 J2 J3] .
  finally have "getUserWorkspacePath configured s = Inr (users_dir configured @ ''/'' @ id)"
    using Inr by (simp add: getUserWorkspacePath_def users_dir_eq)
  then show ?thesis using Inr id(1) plain by blast
qed

text \<open>Witness for C7: a traversal attempt lands inside the users directory.\<close>

theorem workspace_path_stays_inside_users_dir_witness:
  "getUserWorkspacePath ''/srv/ws'' ''../../etc/passwd'' = Inr (users_dir ''/srv/ws'' @ ''/etcpasswd'')
   \<and> users_dir ''/srv/ws'' = ''/srv/ws/users''"
proof -
  have e: "sanitizeUserId ''../../etc/passwd'' = Inr ''etcpasswd''" by code_simp
  have u: "users_dir ''/srv/ws'' = ''/srv/ws/users''" by code_simp
  show ?thesis
    using workspace_path_stays_inside_users_dir [of "''../../etc/passwd''" "''/srv/ws''"] e u
    by auto
qed

section \<open>Properties of the tenant manager\<close>

subsection \<open>The map operations\<close>


lemma js_map_get_set_same: "js_map_get (js_map_set k v xs) k = Some v"
  by (induction xs) (auto simp: js_map_get_def)

lemma js_map_get_set_other: "k' \<noteq> k \<Longrightarrow> js_map_get (js_map_set k v xs) k' = js_map_get xs k'"
  by (induction xs) (auto simp: js_map_get_def)

lemma js_map_get_delete_same: "js_map_get (js_map_delete k xs) k = None"
  by (induction xs) (auto simp: js_map_get_def js_map_delete_def)

lemma js_map_get_delete_other:
  "k' \<noteq> k \<Longrightarrow> js_map_get (js_map_delete k xs) k' = js_map_get xs k'"
  by (induction xs) (auto simp: js_map_get_def js_map_delete_def)

lemma js_map_has_get: "js_map_has xs k \<longleftrightarrow> js_map_get xs k \<noteq> None"
  by (simp add: js_map_has_def js_map_get_def)

lemma js_map_get_Some_member: "js_map_get xs k = Some v \<Longrightarrow> (k, v) \<in> set xs"
  by (simp add: js_map_get_def map_of_SomeD)

lemma js_map_get_None_iff: "js_map_get xs k = None \<longleftrightarrow> k \<notin> fst ` set xs"
  by (simp add: js_map_get_def map_of_eq_None_iff)

lemma keys_js_map_set:
  "map fst (js_map_set k v xs) = (if k \<in> fst ` set xs then map fst xs else map fst xs @ [k])"
  by (induction xs) auto

lemma keys_js_map_delete: "map fst (js_map_delete k xs) = filter (\<lambda>x. x \<noteq> k) (map fst xs)"
  by (induction xs) (auto simp: js_map_delete_def)

lemma set_js_map_set_subset: "set (js_map_set k v xs) \<subseteq> insert (k, v) (set xs)"
  by (induction xs) auto

lemma set_js_map_delete_subset: "set (js_map_delete k xs) \<subseteq> set xs"
  by (auto simp: js_map_delete_def)

subsection \<open>Frame facts\<close>

lemma evictUser_fields:
  "tokenToUserId (evictUser u r m) = tokenToUserId m"
  "options (evictUser u r m) = options m"
  "userInstances (evictUser u r m) = js_map_delete u (userInstances m)"
  "configCache (evictUser u r m) = js_map_delete u (configCache m)"
  "workspaceResolvers (evictUser u r m) = js_map_delete u (workspaceResolvers m)"
  "emitted (evictUser u r m) = emitted m @ [UserEvicted u r]"
  "logged (evictUser u r m) = logged m"
  "verifyCalls (evictUser u r m) = verifyCalls m"
  "cacheHits (evictUser u r m) = cacheHits m"
  "cacheMisses (evictUser u r m) = cacheMisses m"
  "lastSyncAt (evictUser u r m) = lastSyncAt m"
  "syncFailures (evictUser u r m) = syncFailures m"
  by (simp_all add: evictUser_def emit_def)

lemma idle_pass_tokens: "tokenToUserId (idle_pass t i xs m) = tokenToUserId m"
  by (induction xs arbitrary: m) (auto simp: evictUser_fields)

lemma idle_pass_options: "options (idle_pass t i xs m) = options m"
  by (induction xs arbitrary: m) (auto simp: evictUser_fields)

lemma lru_pass_tokens: "tokenToUserId (lru_pass m) = tokenToUserId m"
proof (induction m rule: lru_pass.induct)
  case (1 m)
  show ?case
    by (subst lru_pass.simps) (auto split: option.splits simp: "1.IH" evictUser_fields)
qed

lemma cleanup_tokens: "tokenToUserId (cleanupInactiveUsers t m) = tokenToUserId m"
  by (simp add: cleanupInactiveUsers_def lru_pass_tokens idle_pass_tokens)

lemma forceEvictUser_tokens:
  "forceEvictUser u m = Inr (b, m') \<Longrightarrow> tokenToUserId m' = tokenToUserId m"
  by (auto simp: forceEvictUser_def evictUser_fields split: sum.splits if_splits)

subsection \<open>The representation invariants hold in every reachable state\<close>


lemma list_all_js_map_set:
  "list_all P xs \<Longrightarrow> P (k, v) \<Longrightarrow> list_all P (js_map_set k v xs)"
  by (induction xs) auto

lemma list_all_js_map_delete: "list_all P xs \<Longrightarrow> list_all P (js_map_delete k xs)"
  by (simp add: js_map_delete_def list_all_iff)

lemma distinct_keys_set: "distinct (map fst xs) \<Longrightarrow> distinct (map fst (js_map_set k v xs))"
  by (simp add: keys_js_map_set)

lemma distinct_keys_delete: "distinct (map fst xs) \<Longrightarrow> distinct (map fst (js_map_delete k xs))"
  by (simp add: keys_js_map_delete)

lemma manager_inv_emit [simp]: "manager_inv (emit e m) = manager_inv m"
  by (simp add: manager_inv_def keys_ok_def pending_nonneg_def emit_def)

lemma manager_inv_log_line [simp]: "manager_inv (log_line l m) = manager_inv m"
  by (simp add: manager_inv_def keys_ok_def pending_nonneg_def log_line_def)

lemma manager_inv_new: "manager_inv (new_manager opts)"
  by (simp add: manager_inv_def keys_ok_def pending_nonneg_def new_manager_def)

lemma manager_inv_evictUser: "manager_inv m \<Longrightarrow> manager_inv (evictUser u r m)"
  by (simp add: manager_inv_def keys_ok_def pending_nonneg_def evictUser_fields
      list_all_js_map_delete distinct_keys_delete)

lemma manager_inv_set_instance:
  assumes "manager_inv m" and "sanitizeUserId u = Inr u" and "0 \<le> pendingRequests i"
  shows "manager_inv (m\<lparr>userInstances := js_map_set u i (userInstances m)\<rparr>)"
  using assms
  by (simp add: manager_inv_def keys_ok_def pending_nonneg_def list_all_js_map_set distinct_keys_set)

lemma manager_inv_set_token:
  assumes "manager_inv m" and "sanitizeUserId u = Inr u"
  shows "manager_inv (m\<lparr>tokenToUserId := js_map_set tok u (tokenToUserId m)\<rparr>)"
  using assms
  by (simp add: manager_inv_def keys_ok_def pending_nonneg_def list_all_js_map_set)

lemma manager_inv_cached:
  assumes "manager_inv m" and "js_map_get (userInstances m) u = Some i"
  shows "sanitizeUserId u = Inr u" and "0 \<le> pendingRequests i"
proof -
  have mem: "(u, i) \<in> set (userInstances m)" using assms(2) by (rule js_map_get_Some_member)
  show "sanitizeUserId u = Inr u"
    using assms(1) mem by (auto simp: manager_inv_def keys_ok_def list_all_iff)
  show "0 \<le> pendingRequests i"
    using assms(1) mem by (auto simp: manager_inv_def pending_nonneg_def list_all_iff)
qed

lemma manager_inv_other_fields [simp]:
  "manager_inv (m\<lparr>configCache := c\<rparr>) = manager_inv m"
  "manager_inv (m\<lparr>workspaceResolvers := w\<rparr>) = manager_inv m"
  "manager_inv (m\<lparr>cacheHits := h\<rparr>) = manager_inv m"
  "manager_inv (m\<lparr>cacheMisses := h\<rparr>) = manager_inv m"
  "manager_inv (m\<lparr>lastSyncAt := l\<rparr>) = manager_inv m"
  "manager_inv (m\<lparr>syncFailures := f\<rparr>) = manager_inv m"
  "manager_inv (m\<lparr>verifyCalls := vc\<rparr>) = manager_inv m"
  by (simp_all add: manager_inv_def keys_ok_def pending_nonneg_def)

lemma manager_inv_authenticateToken_sync: "manager_inv m \<Longrightarrow> manager_inv (snd (authenticateToken_sync tok m))"
  by (auto simp: authenticateToken_sync_def split: option.splits)

lemma manager_inv_initializeUserInstance:
  assumes "manager_inv m" and "sanitizeUserId u = Inr u"
    and "initializeUserInstance g ok t u cfg cc m = Inr (i, m')"
  shows "manager_inv m'"
proof -
  have *: "manager_inv (m\<lparr>userInstances := js_map_set u inst (userInstances m)\<rparr>)"
    if "pendingRequests inst = 0" for inst
    using assms(1,2) that by (intro manager_inv_set_instance) simp_all
  show ?thesis
    using assms(3) *
    by (auto simp: initializeUserInstance_def Let_def split: sum.splits)
qed

lemma manager_inv_verify_remote: "manager_inv m \<Longrightarrow> manager_inv (snd (verify_remote g env tok m))"
proof -
  assume i: "manager_inv m"
  let ?m1 = "m\<lparr>verifyCalls := verifyCalls m @ [tok]\<rparr>"
  have i1: "manager_inv ?m1" using i by simp
  have step: "manager_inv m'" if u: "sanitizeUserId x = Inr u"
      and init: "initializeUserInstance g ok t u cfg cc
                  (?m1\<lparr>tokenToUserId := js_map_set tok u (tokenToUserId ?m1)\<rparr>) = Inr (inst, m')"
    for x u ok t cfg cc inst m'
  proof -
    have su: "sanitizeUserId u = Inr u" using u by (rule sanitizeUserId_idem)
    have "manager_inv (?m1\<lparr>tokenToUserId := js_map_set tok u (tokenToUserId ?m1)\<rparr>)"
      using i1 su by (rule manager_inv_set_token)
    then show ?thesis using su init by (rule manager_inv_initializeUserInstance)
  qed
  have tok: "manager_inv (?m1\<lparr>tokenToUserId := js_map_set tok u (tokenToUserId ?m1)\<rparr>)"
    if u: "sanitizeUserId x = Inr u" for x u
    using i1 sanitizeUserId_idem [OF u] by (rule manager_inv_set_token)
  show ?thesis
    unfolding verify_remote_def Let_def
    using i i1 step tok
    by (auto split: fetch_result.splits response_body.splits option.splits sum.splits
        simp del: js_map_set.simps)
qed

lemma manager_inv_authenticateToken: "manager_inv m \<Longrightarrow> manager_inv (snd (authenticateToken g env tok m))"
  using manager_inv_verify_remote [of m g env tok]
  by (auto simp: authenticateToken_def split: option.splits)

lemma manager_inv_getUserInstance: "manager_inv m \<Longrightarrow> manager_inv (snd (getUserInstance g ok t disk u0 m))"
proof -
  assume i: "manager_inv m"
  have hit: "manager_inv (m\<lparr>cacheHits := h, userInstances := js_map_set u (c\<lparr>lastActivityAt := t\<rparr>) (userInstances m)\<rparr>)"
    if "js_map_get (userInstances m) u = Some c" for u c h
  proof -
    have "manager_inv (m\<lparr>userInstances := js_map_set u (c\<lparr>lastActivityAt := t\<rparr>) (userInstances m)\<rparr>)"
      using i manager_inv_cached [OF i that] by (intro manager_inv_set_instance) simp_all
    then show ?thesis by (simp add: manager_inv_def keys_ok_def pending_nonneg_def)
  qed
  have miss: "manager_inv m'"
    if "sanitizeUserId u0 = Inr u"
      and "initializeUserInstance g ok t u cfg None (m\<lparr>cacheMisses := k\<rparr>) = Inr (inst, m')"
    for u cfg k inst m'
    using manager_inv_initializeUserInstance [OF _ sanitizeUserId_idem [OF that(1)] that(2)] i by simp
  show ?thesis
    unfolding getUserInstance_def Let_def
    using i hit miss
    by (auto split: sum.splits option.splits simp del: js_map_set.simps)
qed

lemma manager_inv_update_one: "manager_inv (snd acc) \<Longrightarrow> manager_inv (snd (update_one g w c acc))"
proof -
  assume i: "manager_inv (snd acc)"
  let ?m = "snd acc"
  have tok: "manager_inv (?m\<lparr>tokenToUserId := js_map_set (cu_gatewayToken c) u (tokenToUserId ?m)\<rparr>)"
    if "sanitizeUserId (cu_userId c) = Inr u" for u
    using i sanitizeUserId_idem [OF that] by (rule manager_inv_set_token)
  have upd: "manager_inv (?m\<lparr>tokenToUserId := js_map_set (cu_gatewayToken c) u (tokenToUserId ?m),
                      userInstances := js_map_set u
                         (e\<lparr>config := a, status := b, llmApiKey := k\<rparr>) (userInstances ?m),
                      configCache := cc\<rparr>)"
    if u: "sanitizeUserId (cu_userId c) = Inr u" and e: "js_map_get (userInstances ?m) u = Some e"
    for u e a b k cc
  proof -
    let ?m1 = "?m\<lparr>tokenToUserId := js_map_set (cu_gatewayToken c) u (tokenToUserId ?m)\<rparr>"
    have "manager_inv (?m1\<lparr>userInstances := js_map_set u
                         (e\<lparr>config := a, status := b, llmApiKey := k\<rparr>) (userInstances ?m1)\<rparr>)"
      using tok [OF u] sanitizeUserId_idem [OF u] manager_inv_cached(2) [OF i e]
      by (intro manager_inv_set_instance) simp_all
    then show ?thesis by simp
  qed
  show ?thesis
    unfolding update_one_def Let_def
    using i tok upd
    by (auto split: sum.splits option.splits simp del: js_map_set.simps)
qed

lemma manager_inv_update_fold:
  "manager_inv (snd acc) \<Longrightarrow> manager_inv (snd (foldl (\<lambda>acc c. update_one g w c acc) acc cs))"
  by (induction cs arbitrary: acc) (simp_all add: manager_inv_update_one)

lemma manager_inv_updateUserConfigs: "manager_inv m \<Longrightarrow> manager_inv (snd (updateUserConfigs g w stamp cs m))"
  using manager_inv_update_fold [of "(0, m)" g w cs]
  by (simp add: updateUserConfigs_def Let_def)

lemma manager_inv_recordSyncFailure: "manager_inv m \<Longrightarrow> manager_inv (recordSyncFailure e m)"
  by (simp add: recordSyncFailure_def Let_def)

lemma manager_inv_incrementPendingRequests:
  "manager_inv m \<Longrightarrow> incrementPendingRequests t u0 m = Inr m' \<Longrightarrow> manager_inv m'"
proof -
  assume i: "manager_inv m" and r: "incrementPendingRequests t u0 m = Inr m'"
  have "manager_inv (m\<lparr>userInstances := js_map_set u
               (c\<lparr>pendingRequests := pendingRequests c + 1, lastActivityAt := t\<rparr>)
               (userInstances m)\<rparr>)"
    if "js_map_get (userInstances m) u = Some c" for u c
    using i manager_inv_cached [OF i that] by (intro manager_inv_set_instance) simp_all
  then show ?thesis
    using r i
    by (auto simp: incrementPendingRequests_def split: sum.splits option.splits
        simp del: js_map_set.simps)
qed

lemma manager_inv_decrementPendingRequests:
  "manager_inv m \<Longrightarrow> decrementPendingRequests t u0 m = Inr m' \<Longrightarrow> manager_inv m'"
proof -
  assume i: "manager_inv m" and r: "decrementPendingRequests t u0 m = Inr m'"
  have "manager_inv (m\<lparr>userInstances := js_map_set u
               (c\<lparr>pendingRequests := pendingRequests c - 1, lastActivityAt := t\<rparr>)
               (userInstances m)\<rparr>)"
    if "js_map_get (userInstances m) u = Some c" and "pendingRequests c > 0" for u c
    using i manager_inv_cached [OF i that(1)] that(2) by (intro manager_inv_set_instance) simp_all
  then show ?thesis
    using r i
    by (auto simp: decrementPendingRequests_def split: sum.splits option.splits if_splits
        simp del: js_map_set.simps)
qed

lemma manager_inv_idle_pass: "manager_inv m \<Longrightarrow> manager_inv (idle_pass t i xs m)"
  by (induction xs arbitrary: m) (auto simp: manager_inv_evictUser)

lemma manager_inv_lru_pass: "manager_inv m \<Longrightarrow> manager_inv (lru_pass m)"
proof (induction m rule: lru_pass.induct)
  case (1 m)
  show ?case
    using "1.prems" "1.IH"
    by (subst lru_pass.simps) (auto split: option.splits simp: manager_inv_evictUser)
qed

lemma manager_inv_cleanupInactiveUsers: "manager_inv m \<Longrightarrow> manager_inv (cleanupInactiveUsers t m)"
  by (simp add: cleanupInactiveUsers_def manager_inv_lru_pass manager_inv_idle_pass)

lemma manager_inv_forceEvictUser: "manager_inv m \<Longrightarrow> forceEvictUser u0 m = Inr (b, m') \<Longrightarrow> manager_inv m'"
  by (auto simp: forceEvictUser_def manager_inv_evictUser split: sum.splits if_splits)

lemma manager_inv_exec: "manager_inv m \<Longrightarrow> manager_inv (exec g o1 m)"
proof (cases o1)
  case (IncrementPending t u)
  then show "manager_inv m \<Longrightarrow> ?thesis"
    using manager_inv_incrementPendingRequests [of m t u] by (auto split: sum.splits)
next
  case (DecrementPending t u)
  then show "manager_inv m \<Longrightarrow> ?thesis"
    using manager_inv_decrementPendingRequests [of m t u] by (auto split: sum.splits)
next
  case (ForceEvict u)
  then show "manager_inv m \<Longrightarrow> ?thesis"
    using manager_inv_forceEvictUser [of m u] by (auto split: sum.splits)
qed (simp_all add: manager_inv_authenticateToken_sync manager_inv_authenticateToken manager_inv_getUserInstance
      manager_inv_updateUserConfigs manager_inv_recordSyncFailure manager_inv_cleanupInactiveUsers)

lemma manager_inv_run: "manager_inv m \<Longrightarrow> manager_inv (run g ops m)"
  unfolding run_def by (induction ops arbitrary: m) (simp_all add: manager_inv_exec)

lemma reachable_inv: "reachable g m \<Longrightarrow> manager_inv m"
  by (induction rule: reachable.induct) (simp_all add: manager_inv_new manager_inv_exec)

lemma reachable_run: "reachable g m \<Longrightarrow> reachable g (run g ops m)"
  unfolding run_def by (induction ops arbitrary: m) (simp_all add: reachable.step)

subsection \<open>Eviction and the token index\<close>

text \<open>
  Claim C10. \<^verbatim>\<open>evictUser\<close> deletes the user from the instance cache, the config cache
  and the resolver table and does not touch the token index; hence after
  \<^verbatim>\<open>cleanupInactiveUsers\<close> (idle and LRU evictions) and after \<^verbatim>\<open>forceEvictUser\<close> (manual
  eviction) the token index is the same, \<^verbatim>\<open>hasToken\<close> answers the same for every token
  and \<^verbatim>\<open>getStats().totalUsers\<close> is the same.
\<close>

theorem eviction_leaves_token_index:
  "tokenToUserId (evictUser u reason m) = tokenToUserId m
   \<and> userInstances (evictUser u reason m) = js_map_delete u (userInstances m)
   \<and> configCache (evictUser u reason m) = js_map_delete u (configCache m)
   \<and> workspaceResolvers (evictUser u reason m) = js_map_delete u (workspaceResolvers m)
   \<and> tokenToUserId (cleanupInactiveUsers t m) = tokenToUserId m
   \<and> hasToken (cleanupInactiveUsers t m) token = hasToken m token
   \<and> totalUsers (getStats (cleanupInactiveUsers t m)) = totalUsers (getStats m)
   \<and> (\<forall>b m'. forceEvictUser u0 m = Inr (b, m') \<longrightarrow>
          tokenToUserId m' = tokenToUserId m
          \<and> hasToken m' token = hasToken m token
          \<and> totalUsers (getStats m') = totalUsers (getStats m))"
  using forceEvictUser_tokens [of u0 m]
  by (simp add: evictUser_fields cleanup_tokens hasToken_def getStats_def Let_def)

text \<open>
  Witness for C10: the only user is evicted, by the idle pass and by hand, and its token
  stays registered.
\<close>

theorem eviction_leaves_token_index_witness:
  "getActiveUserIds (cleanupInactiveUsers 5000 loaded_manager) = []
   \<and> hasToken (cleanupInactiveUsers 5000 loaded_manager) ''gt_abc''
   \<and> forceEvictUser ''u-1'' loaded_manager = Inr (True, evictUser ''u-1'' Manual loaded_manager)
   \<and> hasToken (evictUser ''u-1'' Manual loaded_manager) ''gt_abc''
   \<and> totalUsers (getStats (evictUser ''u-1'' Manual loaded_manager)) = 1"
proof -
  have a: "getActiveUserIds (cleanupInactiveUsers 5000 loaded_manager) = []" by code_simp
  have h: "hasToken loaded_manager ''gt_abc''" by code_simp
  have n: "totalUsers (getStats loaded_manager) = 1" by code_simp
  have f: "forceEvictUser ''u-1'' loaded_manager
             = Inr (True, evictUser ''u-1'' Manual loaded_manager)"
    by code_simp
  show ?thesis
    using eviction_leaves_token_index
      [of "''u-1''" Manual loaded_manager 5000 "''gt_abc''" "''u-1''"] a h n f
    by auto
qed

subsection \<open>Eviction and pending requests\<close>


lemma distinct_keys_unique:
  "distinct (map fst xs) \<Longrightarrow> js_map_get xs u = Some i \<Longrightarrow> (u, i') \<in> set xs \<Longrightarrow> i' = i"
  by (simp add: js_map_get_def)

lemma idle_pass_keeps:
  assumes "js_map_get (userInstances m) u = Some i"
    and "\<forall>inst. (u, inst) \<in> set xs \<longrightarrow> pendingRequests inst > 0"
  shows "js_map_get (userInstances (idle_pass t idle xs m)) u = Some i"
  using assms
proof (induction xs arbitrary: m)
  case Nil
  then show ?case by simp
next
  case (Cons e xs)
  obtain uid inst where e: "e = (uid, inst)" by (cases e)
  have rest: "\<forall>inst. (u, inst) \<in> set xs \<longrightarrow> pendingRequests inst > 0"
    using Cons.prems(2) by simp
  show ?case
  proof (cases "\<not> pendingRequests inst > 0 \<and> t - lastActivityAt inst > idle")
    case True
    then have "uid \<noteq> u" using Cons.prems(2) e by auto
    then have "js_map_get (userInstances (evictUser uid Idle m)) u = Some i"
      using Cons.prems(1) by (simp add: evictUser_fields js_map_get_delete_other)
    then show ?thesis using Cons.IH rest True e by simp
  next
    case False
    then show ?thesis using Cons.IH [OF Cons.prems(1) rest] e by auto
  qed
qed

lemma find_oldest_not_pending:
  "find_oldest xs acc a = Some v \<Longrightarrow>
     acc = Some v \<or> (\<exists>inst. (v, inst) \<in> set xs \<and> \<not> pendingRequests inst > 0)"
  by (induction xs acc a rule: find_oldest.induct) (auto split: if_splits)

lemma lru_pass_keeps:
  assumes "distinct (map fst (userInstances m))"
    and "js_map_get (userInstances m) u = Some i" and "pendingRequests i > 0"
  shows "js_map_get (userInstances (lru_pass m)) u = Some i"
  using assms
proof (induction m rule: lru_pass.induct)
  case (1 m)
  have step: "js_map_get (userInstances (lru_pass (evictUser v Lru m))) u = Some i"
    if over: "int (length (userInstances m)) > maxCachedUsers (options m)"
      and v: "find_oldest (userInstances m) None None = Some v" and ne: "v \<noteq> []" for v
  proof -
    from find_oldest_not_pending [OF v] obtain inst where
      inst: "(v, inst) \<in> set (userInstances m)" "\<not> pendingRequests inst > 0" by auto
    have "v \<noteq> u"
      using distinct_keys_unique [OF "1.prems"(1,2)] inst "1.prems"(3) by auto
    then have g: "js_map_get (userInstances (evictUser v Lru m)) u = Some i"
      using "1.prems"(2) by (simp add: evictUser_fields js_map_get_delete_other)
    have d: "distinct (map fst (userInstances (evictUser v Lru m)))"
      using "1.prems"(1) by (simp add: evictUser_fields distinct_keys_delete)
    show ?thesis using "1.IH" [OF over v ne d g "1.prems"(3)] .
  qed
  show ?case
    using "1.prems"(2) step
    by (subst lru_pass.simps) (auto split: option.splits)
qed

lemma idle_pass_distinct:
  "distinct (map fst (userInstances m)) \<Longrightarrow> distinct (map fst (userInstances (idle_pass t idle xs m)))"
  by (induction xs arbitrary: m) (auto simp: evictUser_fields distinct_keys_delete)

lemma cleanup_keeps:
  assumes "distinct (map fst (userInstances m))"
    and "js_map_get (userInstances m) u = Some i" and "pendingRequests i > 0"
  shows "js_map_get (userInstances (idle_pass t (userIdleTimeoutMs (options m)) (userInstances m) m)) u
           = Some i"
    and "js_map_get (userInstances (cleanupInactiveUsers t m)) u = Some i"
proof -
  have all: "\<forall>inst. (u, inst) \<in> set (userInstances m) \<longrightarrow> pendingRequests inst > 0"
    using distinct_keys_unique [OF assms(1,2)] assms(3) by blast
  show 1: "js_map_get (userInstances (idle_pass t (userIdleTimeoutMs (options m)) (userInstances m) m)) u
           = Some i"
    using assms(2) all by (rule idle_pass_keeps)
  show "js_map_get (userInstances (cleanupInactiveUsers t m)) u = Some i"
    unfolding cleanupInactiveUsers_def
    using idle_pass_distinct [OF assms(1)] 1 assms(3) by (rule lru_pass_keeps)
qed

lemma manager_inv_distinct: "manager_inv m \<Longrightarrow> distinct (map fst (userInstances m))"
  by (simp add: manager_inv_def keys_ok_def)

text \<open>
  Claim C1, as the code has it. In every reachable state, an instance whose
  \<^verbatim>\<open>pendingRequests\<close> is positive is still in the cache, unchanged, after the idle pass,
  after the LRU pass and after the whole of \<^verbatim>\<open>cleanupInactiveUsers\<close> (and the private
  \<^verbatim>\<open>maybeEvictUser\<close> leaves it alone as well). \<^verbatim>\<open>forceEvictUser\<close> is not bound by the
  counter: it removes the instance and returns \<^verbatim>\<open>true\<close>.
\<close>

theorem cleanup_never_evicts_pending:
  assumes "reachable g m" and "js_map_get (userInstances m) u = Some i"
    and "pendingRequests i > 0"
  shows "js_map_get (userInstances (idle_pass t (userIdleTimeoutMs (options m)) (userInstances m) m)) u
           = Some i
       \<and> js_map_get (userInstances (lru_pass m)) u = Some i
       \<and> js_map_get (userInstances (cleanupInactiveUsers t m)) u = Some i
       \<and> js_map_get (userInstances (maybeEvictUser u reason m)) u = Some i
       \<and> forceEvictUser u m = Inr (True, evictUser u Manual m)
       \<and> js_map_get (userInstances (evictUser u Manual m)) u = None"
proof -
  have inv: "manager_inv m" using assms(1) by (rule reachable_inv)
  have d: "distinct (map fst (userInstances m))" using inv by (rule manager_inv_distinct)
  have su: "sanitizeUserId u = Inr u" using manager_inv_cached(1) [OF inv assms(2)] .
  have "forceEvictUser u m = Inr (True, evictUser u Manual m)"
    using su assms(2) by (simp add: forceEvictUser_def js_map_has_get)
  moreover have "js_map_get (userInstances (maybeEvictUser u reason m)) u = Some i"
    using assms(2,3) by (simp add: maybeEvictUser_def)
  ultimately show ?thesis
    using cleanup_keeps [OF d assms(2,3)] lru_pass_keeps [OF d assms(2,3)]
    by (simp add: evictUser_fields js_map_get_delete_same)
qed

lemma busy_manager_facts:
  "js_map_get (userInstances busy_manager) ''u-1''
     = Some (sample_instance ''u-1'' 20 1)"
  by code_simp

lemma reachable_busy_manager: "reachable sample_config busy_manager"
  unfolding busy_manager_def by (intro reachable_run reachable.init)

lemma reachable_loaded_manager: "reachable sample_config loaded_manager"
  unfolding loaded_manager_def by (intro reachable_run reachable.init)

text \<open>
  Witness for C1: a user with one request in flight, idle far longer than the timeout,
  survives the cleanup.
\<close>

theorem cleanup_never_evicts_pending_witness:
  "js_map_get (userInstances (cleanupInactiveUsers 999999 busy_manager)) ''u-1''
     = Some (sample_instance ''u-1'' 20 1)
   \<and> js_map_get (userInstances (evictUser ''u-1'' Manual busy_manager)) ''u-1'' = None"
proof -
  have p: "pendingRequests (sample_instance ''u-1'' 20 1) > 0"
    by (simp add: sample_instance_def)
  show ?thesis
    using cleanup_never_evicts_pending [OF reachable_busy_manager busy_manager_facts p]
    by simp
qed

text \<open>
  Counterexample to C1 as stated: in a reachable state where \<^verbatim>\<open>u-1\<close> has one pending
  request, \<^verbatim>\<open>forceEvictUser\<close> empties the cache.
\<close>

theorem forceEvictUser_evicts_pending_counterexample:
  "reachable sample_config busy_manager
   \<and> pending_of busy_manager ''u-1'' = Some 1
   \<and> getActiveUserIds busy_manager = [''u-1'']
   \<and> getActiveUserIds (exec sample_config (ForceEvict ''u-1'') busy_manager) = []"
proof -
  have "pending_of busy_manager ''u-1'' = Some 1" by code_simp
  moreover have "getActiveUserIds busy_manager = [''u-1'']" by code_simp
  moreover have "getActiveUserIds (exec sample_config (ForceEvict ''u-1'') busy_manager) = []"
    by code_simp
  ultimately show ?thesis using reachable_busy_manager by simp
qed

subsection \<open>Authentication on a cache hit\<close>

lemma manager_inv_token_nonempty:
  assumes "manager_inv m" and "js_map_get (tokenToUserId m) tok = Some u"
  shows "u \<noteq> []"
proof -
  have "(tok, u) \<in> set (tokenToUserId m)" using assms(2) by (rule js_map_get_Some_member)
  then have "sanitizeUserId u = Inr u"
    using assms(1) by (auto simp: manager_inv_def keys_ok_def list_all_iff)
  then show ?thesis using sanitizeUserId_Inr by blast
qed

text \<open>
  Claim C2, as the code has it. In a reachable state, when the token is in the index and
  the instance it names is cached: with status \<^verbatim>\<open>active\<close> both variants of
  \<^verbatim>\<open>authenticateToken\<close> return the user id and leave the manager as it was (so
  \<^verbatim>\<open>lastActivityAt\<close> is not refreshed); with status \<^verbatim>\<open>suspended\<close> or \<^verbatim>\<open>expired\<close> they
  return \<^verbatim>\<open>null\<close> and the only change is one \<^verbatim>\<open>user-suspended\<close>, respectively
  \<^verbatim>\<open>user-expired\<close>, event appended to the events emitted.
\<close>

theorem authenticate_cache_hit:
  assumes "reachable g m" and "js_map_get (tokenToUserId m) tok = Some u"
    and "js_map_get (userInstances m) u = Some i"
  shows "(status i = Some ''active'' \<longrightarrow>
            authenticateToken g env tok m = (Some u, m)
            \<and> authenticateToken_sync tok m = (Some u, m))
       \<and> (status i = Some ''suspended'' \<longrightarrow>
            authenticateToken g env tok m = (None, m\<lparr>emitted := emitted m @ [UserSuspended u]\<rparr>)
            \<and> authenticateToken_sync tok m = (None, m\<lparr>emitted := emitted m @ [UserSuspended u]\<rparr>))
       \<and> (status i = Some ''expired'' \<longrightarrow>
            authenticateToken g env tok m = (None, m\<lparr>emitted := emitted m @ [UserExpired u]\<rparr>)
            \<and> authenticateToken_sync tok m = (None, m\<lparr>emitted := emitted m @ [UserExpired u]\<rparr>))"
proof -
  have "u \<noteq> []"
    using manager_inv_token_nonempty [OF reachable_inv [OF assms(1)] assms(2)] .
  then show ?thesis
    using assms(2,3)
    by (simp add: authenticateToken_def authenticateToken_sync_def cache_hit_def emit_def)
qed


text \<open>
  Witness for C2: a cached active user is let in with the manager unchanged; a cached
  suspended user (scenario S2 of the specification) and a cached expired user are refused
  by both variants with exactly one event.
\<close>

theorem authenticate_cache_hit_witness:
  "authenticateToken sample_config (answering FetchThrows) ''gt_abc'' loaded_manager
     = (Some ''u-1'', loaded_manager)
   \<and> authenticateToken_sync ''gt_abc'' loaded_manager = (Some ''u-1'', loaded_manager)
   \<and> authenticateToken sample_config (answering FetchThrows) ''gt_s'' suspended_manager
     = (None, suspended_manager\<lparr>emitted := emitted suspended_manager @ [UserSuspended ''u-2'']\<rparr>)
   \<and> authenticateToken_sync ''gt_s'' suspended_manager
     = (None, suspended_manager\<lparr>emitted := emitted suspended_manager @ [UserSuspended ''u-2'']\<rparr>)
   \<and> authenticateToken sample_config (answering FetchThrows) ''gt_e'' expired_manager
     = (None, expired_manager\<lparr>emitted := emitted expired_manager @ [UserExpired ''u-3'']\<rparr>)
   \<and> authenticateToken_sync ''gt_e'' expired_manager
     = (None, expired_manager\<lparr>emitted := emitted expired_manager @ [UserExpired ''u-3'']\<rparr>)"
proof -
  have ra: "reachable sample_config loaded_manager" by (rule reachable_loaded_manager)
  have ta: "js_map_get (tokenToUserId loaded_manager) ''gt_abc'' = Some ''u-1''" by code_simp
  have ia: "js_map_get (userInstances loaded_manager) ''u-1''
             = Some (sample_instance ''u-1'' 10 0)"
    by code_simp
  have rs: "reachable sample_config suspended_manager"
    unfolding suspended_manager_def by (intro reachable_run reachable.init)
  have ts: "js_map_get (tokenToUserId suspended_manager) ''gt_s'' = Some ''u-2''" by code_simp
  have i2: "js_map_get (userInstances suspended_manager) ''u-2''
             = Some ((sample_instance ''u-2'' 10 0)\<lparr>status := Some ''suspended''\<rparr>)"
    by code_simp
  have re: "reachable sample_config expired_manager"
    unfolding expired_manager_def by (intro reachable_run reachable.init)
  have te: "js_map_get (tokenToUserId expired_manager) ''gt_e'' = Some ''u-3''" by code_simp
  have ie: "js_map_get (userInstances expired_manager) ''u-3''
             = Some ((sample_instance ''u-3'' 10 0)\<lparr>status := Some ''expired''\<rparr>)"
    by code_simp
  show ?thesis
    using authenticate_cache_hit [OF ra ta ia, of "answering FetchThrows"]
      authenticate_cache_hit [OF rs ts i2, of "answering FetchThrows"]
      authenticate_cache_hit [OF re te ie, of "answering FetchThrows"]
    by (simp add: sample_instance_def)
qed

text \<open>
  Counterexample to C2 as stated: the user was loaded at time 10; authenticating its
  token at time 99 returns the user id and \<^verbatim>\<open>lastActivityAt\<close> is still 10, in both variants.
\<close>

theorem authenticate_no_refresh_counterexample:
  "fst (authenticateToken sample_config (verified ''u-1'' ''active'' 99) ''gt_abc'' loaded_manager)
     = Some ''u-1''
   \<and> map_option lastActivityAt
        (js_map_get
           (userInstances
              (snd (authenticateToken sample_config (verified ''u-1'' ''active'' 99) ''gt_abc''
                      loaded_manager))) ''u-1'') = Some 10
   \<and> now (verified ''u-1'' ''active'' 99) = 99
   \<and> fst (authenticateToken_sync ''gt_abc'' loaded_manager) = Some ''u-1''
   \<and> map_option lastActivityAt
        (js_map_get (userInstances (snd (authenticateToken_sync ''gt_abc'' loaded_manager))) ''u-1'')
       = Some 10"
  by code_simp

subsection \<open>Counters\<close>

lemma run_Cons: "run g (o1 # os) m = run g os (exec g o1 m)"
  by (simp add: run_def)

lemma run_Nil: "run g [] m = m"
  by (simp add: run_def)

lemma pending_of_set_same:
  "pending_of (m\<lparr>userInstances := js_map_set u i (userInstances m)\<rparr>) u = Some (pendingRequests i)"
  by (simp add: pending_of_def js_map_get_set_same)

lemma pending_of_set_other:
  "v \<noteq> u \<Longrightarrow> pending_of (m\<lparr>userInstances := js_map_set v i (userInstances m)\<rparr>) u = pending_of m u"
  by (simp add: pending_of_def js_map_get_set_other)

lemma exec_increments:
  assumes "increments u o1" and "pending_of m u = Some p"
  shows "pending_of (exec g o1 m) u = Some (p + 1)"
proof -
  from assms(1) obtain t x where o1: "o1 = IncrementPending t x" and x: "sanitizeUserId x = Inr u"
    by (auto simp: increments_def split: op.splits)
  from assms(2) obtain i where i: "js_map_get (userInstances m) u = Some i" "pendingRequests i = p"
    by (auto simp: pending_of_def)
  show ?thesis
    by (simp add: o1 incrementPendingRequests_def x i pending_of_set_same del: js_map_set.simps)
qed

lemma exec_decrements:
  assumes "decrements u o1" and "pending_of m u = Some p" and "p > 0"
  shows "pending_of (exec g o1 m) u = Some (p - 1)"
proof -
  from assms(1) obtain t x where o1: "o1 = DecrementPending t x" and x: "sanitizeUserId x = Inr u"
    by (auto simp: decrements_def split: op.splits)
  from assms(2) obtain i where i: "js_map_get (userInstances m) u = Some i" "pendingRequests i = p"
    by (auto simp: pending_of_def)
  show ?thesis
    using assms(3)
    by (simp add: o1 decrementPendingRequests_def x i pending_of_set_same del: js_map_set.simps)
qed

lemma exec_other_counter_op:
  assumes "is_counter_op o1" and "\<not> increments u o1" and "\<not> decrements u o1"
  shows "pending_of (exec g o1 m) u = pending_of m u"
proof (cases o1)
  case (IncrementPending t x)
  then have "sanitizeUserId x \<noteq> Inr u" using assms(2) by (simp add: increments_def)
  then show ?thesis
    by (auto simp: IncrementPending incrementPendingRequests_def pending_of_set_other
        split: sum.splits option.splits simp del: js_map_set.simps)
next
  case (DecrementPending t x)
  then have "sanitizeUserId x \<noteq> Inr u" using assms(3) by (simp add: decrements_def)
  then show ?thesis
    by (auto simp: DecrementPending decrementPendingRequests_def pending_of_set_other
        split: sum.splits option.splits simp del: js_map_set.simps)
qed (use assms(1) in \<open>simp_all add: is_counter_op_def\<close>)

lemma increments_not_decrements: "increments u o1 \<Longrightarrow> \<not> decrements u o1"
  by (auto simp: increments_def decrements_def split: op.splits)

lemma counter_ops_pending:
  assumes "pending_of m u = Some (int c)" and "list_all is_counter_op ops" and "matching u c ops"
  shows "length (filter (decrements u) ops) \<le> c + length (filter (increments u) ops)
       \<and> pending_of (run g ops m) u
           = Some (int (c + length (filter (increments u) ops) - length (filter (decrements u) ops)))"
  using assms
proof (induction ops arbitrary: m c)
  case Nil
  then show ?case by (simp add: run_Nil)
next
  case (Cons o1 os)
  have all: "list_all is_counter_op os" and co: "is_counter_op o1" using Cons.prems(2) by simp_all
  consider (inc) "increments u o1" | (dec) "\<not> increments u o1" "decrements u o1"
    | (other) "\<not> increments u o1" "\<not> decrements u o1" by blast
  then show ?case
  proof cases
    case inc
    have p: "pending_of (exec g o1 m) u = Some (int (c + 1))"
      using exec_increments [OF inc Cons.prems(1)] by simp
    have mt: "matching u (c + 1) os" using Cons.prems(3) inc by simp
    show ?thesis
      using Cons.IH [OF p all mt] inc increments_not_decrements [OF inc]
      by (simp add: run_Cons)
  next
    case dec
    have c: "c > 0" and mt: "matching u (c - 1) os" using Cons.prems(3) dec by simp_all
    have p: "pending_of (exec g o1 m) u = Some (int (c - 1))"
      using exec_decrements [OF dec(2) Cons.prems(1)] c by (simp add: of_nat_diff)
    show ?thesis
      using Cons.IH [OF p all mt] dec c
      by (simp add: run_Cons) linarith
  next
    case other
    have p: "pending_of (exec g o1 m) u = Some (int c)"
      using exec_other_counter_op [OF co other] Cons.prems(1) by simp
    have mt: "matching u c os" using Cons.prems(3) other by simp
    show ?thesis
      using Cons.IH [OF p all mt] other by (simp add: run_Cons)
  qed
qed

lemma matching_take: "matching u c ops \<Longrightarrow> matching u c (take k ops)"
proof (induction ops arbitrary: c k)
  case Nil
  then show ?case by simp
next
  case (Cons o1 os)
  then show ?case by (cases k) auto
qed

lemma list_all_take: "list_all P xs \<Longrightarrow> list_all P (take k xs)"
  by (auto simp: list_all_iff dest: in_set_takeD)

lemma decrement_noop_at_zero:
  assumes "sanitizeUserId u0 = Inr u" and "pending_of m u = Some 0"
  shows "decrementPendingRequests t u0 m = Inr m"
  using assms by (auto simp: decrementPendingRequests_def pending_of_def)

subsection \<open>The two passes of the cleanup\<close>



lemma find_cong_set: "(\<And>x. x \<in> set xs \<Longrightarrow> P x = Q x) \<Longrightarrow> find P xs = find Q xs"
  by (induction xs) auto

lemma first_oldest_Cons_older:
  assumes "t < a0"
  shows "spec_first_oldest ((u0, a0) # (uid, t) # cs) = spec_first_oldest ((uid, t) # cs)"
proof -
  have "find (\<lambda>c. list_all (\<lambda>c'. snd c \<le> snd c') ((u0, a0) # (uid, t) # cs)) ((uid, t) # cs)
      = find (\<lambda>c. list_all (\<lambda>c'. snd c \<le> snd c') ((uid, t) # cs)) ((uid, t) # cs)"
    using assms by (intro find_cong_set) auto
  then show ?thesis using assms by (simp add: spec_first_oldest_def)
qed

lemma first_oldest_Cons_newer:
  assumes "a0 \<le> t"
  shows "spec_first_oldest ((u0, a0) # (uid, t) # cs) = spec_first_oldest ((u0, a0) # cs)"
proof (cases "list_all (\<lambda>c'. a0 \<le> snd c') cs")
  case True
  then show ?thesis using assms by (simp add: spec_first_oldest_def)
next
  case False
  then obtain c where c: "c \<in> set cs" "snd c < a0" by (auto simp: list_all_iff)
  have "find (\<lambda>c. list_all (\<lambda>c'. snd c \<le> snd c') ((u0, a0) # (uid, t) # cs)) cs
      = find (\<lambda>c. list_all (\<lambda>c'. snd c \<le> snd c') ((u0, a0) # cs)) cs"
    using assms by (intro find_cong_set) auto
  moreover have "\<not> list_all (\<lambda>c'. t \<le> snd c') cs"
    using c assms by (force simp: list_all_iff)
  ultimately show ?thesis using False assms by (simp add: spec_first_oldest_def)
qed

lemma find_oldest_Some:
  assumes "list_all (\<lambda>e. 0 \<le> pendingRequests (snd e)) xs"
  shows "find_oldest xs (Some u0) (Some a0) = spec_first_oldest ((u0, a0) # spec_lru_candidates xs)"
  using assms
proof (induction xs arbitrary: u0 a0)
  case Nil
  then show ?case by (simp add: spec_lru_candidates_def spec_first_oldest_def)
next
  case (Cons e xs)
  obtain uid inst where e: "e = (uid, inst)" by (cases e)
  have rest: "list_all (\<lambda>e. 0 \<le> pendingRequests (snd e)) xs"
    and p: "0 \<le> pendingRequests inst" using Cons.prems e by simp_all
  show ?case
  proof (cases "pendingRequests inst > 0")
    case True
    then show ?thesis using Cons.IH [OF rest] e by (simp add: spec_lru_candidates_def)
  next
    case False
    then have z: "pendingRequests inst = 0" using p by simp
    have lc: "spec_lru_candidates (e # xs) = (uid, lastActivityAt inst) # spec_lru_candidates xs"
      using z e by (simp add: spec_lru_candidates_def)
    show ?thesis
    proof (cases "lastActivityAt inst < a0")
      case True
      then show ?thesis
        using Cons.IH [OF rest] e z lc by (simp add: first_oldest_Cons_older)
    next
      case False
      then show ?thesis
        using Cons.IH [OF rest] e z lc by (simp add: first_oldest_Cons_newer)
    qed
  qed
qed

lemma find_oldest_spec:
  assumes "list_all (\<lambda>e. 0 \<le> pendingRequests (snd e)) xs"
  shows "find_oldest xs None None = spec_lru_victim xs"
  using assms
proof (induction xs)
  case Nil
  then show ?case by (simp add: spec_lru_victim_def spec_lru_candidates_def spec_first_oldest_def)
next
  case (Cons e xs)
  obtain uid inst where e: "e = (uid, inst)" by (cases e)
  have rest: "list_all (\<lambda>e. 0 \<le> pendingRequests (snd e)) xs"
    and p: "0 \<le> pendingRequests inst" using Cons.prems e by simp_all
  show ?case
  proof (cases "pendingRequests inst > 0")
    case True
    then show ?thesis
      using Cons.IH [OF rest] e by (simp add: spec_lru_victim_def spec_lru_candidates_def)
  next
    case False
    then have z: "pendingRequests inst = 0" using p by simp
    show ?thesis
      using find_oldest_Some [OF rest, of uid "lastActivityAt inst"] e z
      by (simp add: spec_lru_victim_def spec_lru_candidates_def)
  qed
qed


lemma idle_victims_spec:
  "list_all (\<lambda>e. 0 \<le> pendingRequests (snd e)) xs \<Longrightarrow> idle_victims t idle xs = spec_idle_victims t idle xs"
  unfolding idle_victims_def spec_idle_victims_def
  by (rule arg_cong [where f = "map fst"], rule filter_cong) (auto simp: list_all_iff)

lemma idle_pass_emitted:
  "emitted (idle_pass t idle xs m)
     = emitted m @ map (\<lambda>u. UserEvicted u Idle) (idle_victims t idle xs)"
  by (induction xs arbitrary: m) (auto simp: idle_victims_def evictUser_fields)

lemma idle_pass_instances:
  "userInstances (idle_pass t idle xs m)
     = filter (\<lambda>e. fst e \<notin> set (idle_victims t idle xs)) (userInstances m)"
proof (induction xs arbitrary: m)
  case Nil
  then show ?case by (simp add: idle_victims_def)
next
  case (Cons e xs)
  obtain uid inst where e: "e = (uid, inst)" by (cases e)
  show ?case
  proof (cases "\<not> pendingRequests inst > 0 \<and> t - lastActivityAt inst > idle")
    case True
    then have v: "idle_victims t idle (e # xs) = uid # idle_victims t idle xs"
      using e by (simp add: idle_victims_def)
    have "userInstances (idle_pass t idle (e # xs) m)
          = userInstances (idle_pass t idle xs (evictUser uid Idle m))"
      using True e by simp
    also have "\<dots> = filter (\<lambda>x. fst x \<notin> set (idle_victims t idle xs))
                       (js_map_delete uid (userInstances m))"
      by (simp add: Cons.IH evictUser_fields)
    also have "\<dots> = filter (\<lambda>x. fst x \<notin> set (idle_victims t idle (e # xs))) (userInstances m)"
      unfolding v js_map_delete_def by (auto intro: filter_cong)
    finally show ?thesis .
  next
    case False
    then have v: "idle_victims t idle ((uid, inst) # xs) = idle_victims t idle xs"
      by (auto simp: idle_victims_def)
    have "idle_pass t idle ((uid, inst) # xs) m = idle_pass t idle xs m"
      using False by auto
    then show ?thesis unfolding e v using Cons.IH [of m] by simp
  qed
qed

lemma distinct_keys_entry_eq:
  "distinct (map fst xs) \<Longrightarrow> e \<in> set xs \<Longrightarrow> e' \<in> set xs \<Longrightarrow> fst e = fst e' \<Longrightarrow> e = e'"
  by (meson distinct_map inj_onD)

lemma idle_pass_instances_distinct:
  assumes "distinct (map fst xs)"
  shows "filter (\<lambda>e. fst e \<notin> set (idle_victims t idle xs)) xs
       = filter (\<lambda>e. \<not> (\<not> pendingRequests (snd e) > 0 \<and> t - lastActivityAt (snd e) > idle)) xs"
proof (rule filter_cong [OF refl])
  fix e assume e: "e \<in> set xs"
  show "(fst e \<notin> set (idle_victims t idle xs))
      = (\<not> (\<not> pendingRequests (snd e) > 0 \<and> t - lastActivityAt (snd e) > idle))"
    using distinct_keys_entry_eq [OF assms _ e] e
    by (auto simp: idle_victims_def)
qed

lemma find_oldest_Some_acc: "find_oldest xs (Some u) a \<noteq> None"
  by (induction xs "Some u" a arbitrary: u rule: find_oldest.induct) auto

lemma find_oldest_None_iff:
  "find_oldest xs None None = None \<longleftrightarrow> list_all (\<lambda>e. pendingRequests (snd e) > 0) xs"
  by (induction xs) (auto simp: find_oldest_Some_acc split: if_splits)

lemma manager_inv_instances:
  "manager_inv m \<Longrightarrow> list_all (\<lambda>e. 0 \<le> pendingRequests (snd e)) (userInstances m)"
  by (simp add: manager_inv_def pending_nonneg_def)

lemma manager_inv_victim_nonempty:
  assumes "manager_inv m" and "find_oldest (userInstances m) None None = Some v"
  shows "v \<noteq> []"
proof -
  have "v \<in> fst ` set (userInstances m)" using find_oldest_member [OF assms(2)] by simp
  then have "sanitizeUserId v = Inr v"
    using assms(1) by (auto simp: manager_inv_def keys_ok_def list_all_iff)
  then show ?thesis using sanitizeUserId_Inr by blast
qed

lemma lru_pass_unfold:
  assumes "manager_inv m"
  shows "lru_pass m =
     (if int (length (userInstances m)) > maxCachedUsers (options m) then
        (case spec_lru_victim (userInstances m) of
           None \<Rightarrow> m
         | Some v \<Rightarrow> lru_pass (evictUser v Lru m))
      else m)"
  using manager_inv_victim_nonempty [OF assms]
  by (subst lru_pass.simps)
     (auto simp: find_oldest_spec [OF manager_inv_instances [OF assms], symmetric]
        split: option.splits)

lemma lru_pass_post:
  assumes "manager_inv m"
  shows "int (length (userInstances (lru_pass m))) \<le> maxCachedUsers (options (lru_pass m))
       \<or> list_all (\<lambda>e. pendingRequests (snd e) > 0) (userInstances (lru_pass m))"
  using assms
proof (induction m rule: lru_pass.induct)
  case (1 m)
  show ?case
  proof (cases "int (length (userInstances m)) > maxCachedUsers (options m)")
    case False
    then show ?thesis by (subst (1 2 3) lru_pass.simps) simp
  next
    case over: True
    show ?thesis
    proof (cases "find_oldest (userInstances m) None None")
      case None
      then have "lru_pass m = m" using over by (subst lru_pass.simps) simp
      then show ?thesis using None find_oldest_None_iff by simp
    next
      case (Some v)
      have ne: "v \<noteq> []" using manager_inv_victim_nonempty [OF "1.prems" Some] .
      have eq: "lru_pass m = lru_pass (evictUser v Lru m)"
        using over Some ne by (subst lru_pass.simps) simp
      show ?thesis
        unfolding eq
        using "1.IH" [OF over Some ne manager_inv_evictUser [OF "1.prems"]] .
    qed
  qed
qed

lemma lru_pass_options: "options (lru_pass m) = options m"
proof (induction m rule: lru_pass.induct)
  case (1 m)
  show ?case
    by (subst lru_pass.simps) (auto split: option.splits simp: "1.IH" evictUser_fields)
qed

lemma filter_not_pending:
  assumes "list_all (\<lambda>e. 0 \<le> pendingRequests (snd e)) xs"
  shows "filter (\<lambda>e. \<not> (\<not> pendingRequests (snd e) > 0 \<and> t - lastActivityAt (snd e) > idle)) xs
       = filter (\<lambda>e. \<not> (pendingRequests (snd e) = 0 \<and> t - lastActivityAt (snd e) > idle)) xs"
  using assms by (intro filter_cong) (auto simp: list_all_iff)

text \<open>
  Claim C3. In a state that satisfies the representation invariants (every reachable
  state does, and so does every state in the middle of a cleanup):
  \<^item> \<^verbatim>\<open>cleanupInactiveUsers\<close> is the idle pass followed by the LRU pass;
  \<^item> the idle pass removes exactly the instances with \<^verbatim>\<open>pendingRequests == 0\<close> and
    \<^verbatim>\<open>now - lastActivityAt > userIdleTimeoutMs\<close>, keeps the others in their order, and emits
    one \<^verbatim>\<open>user-evicted\<close> event with reason \<^verbatim>\<open>idle\<close> for each, in iteration order;
  \<^item> the LRU pass, while the cache holds more than \<^verbatim>\<open>maxCachedUsers\<close> instances, evicts with
    reason \<^verbatim>\<open>lru\<close> the victim the specification names (oldest \<^verbatim>\<open>lastActivityAt\<close> among the
    instances with \<^verbatim>\<open>pendingRequests == 0\<close>, the first in iteration order when several share
    it) and goes on; it stops when there is no victim, which is exactly when every
    instance has pending work;
  \<^item> so after the cleanup the cache is within its cap or every instance left has pending
    work.
\<close>

theorem cleanup_idle_pass_then_lru_pass:
  assumes "manager_inv m"
  shows "cleanupInactiveUsers t m
           = lru_pass (idle_pass t (userIdleTimeoutMs (options m)) (userInstances m) m)
       \<and> userInstances (idle_pass t idle (userInstances m) m)
           = filter (\<lambda>e. \<not> (pendingRequests (snd e) = 0 \<and> t - lastActivityAt (snd e) > idle))
               (userInstances m)
       \<and> emitted (idle_pass t idle (userInstances m) m)
           = emitted m @ map (\<lambda>u. UserEvicted u Idle) (spec_idle_victims t idle (userInstances m))
       \<and> manager_inv (idle_pass t idle (userInstances m) m)
       \<and> lru_pass m =
           (if int (length (userInstances m)) > maxCachedUsers (options m) then
              (case spec_lru_victim (userInstances m) of
                 None \<Rightarrow> m
               | Some v \<Rightarrow> lru_pass (evictUser v Lru m))
            else m)
       \<and> manager_inv (evictUser v Lru m)
       \<and> (spec_lru_victim (userInstances m) = None
            \<longleftrightarrow> list_all (\<lambda>e. pendingRequests (snd e) > 0) (userInstances m))
       \<and> (int (length (userInstances (cleanupInactiveUsers t m))) \<le> maxCachedUsers (options m)
            \<or> list_all (\<lambda>e. pendingRequests (snd e) > 0)
                 (userInstances (cleanupInactiveUsers t m)))"
proof -
  let ?xs = "userInstances m"
  have nn: "list_all (\<lambda>e. 0 \<le> pendingRequests (snd e)) ?xs"
    using assms by (rule manager_inv_instances)
  have d: "distinct (map fst ?xs)" using assms by (rule manager_inv_distinct)
  have 1: "userInstances (idle_pass t idle ?xs m)
           = filter (\<lambda>e. \<not> (pendingRequests (snd e) = 0 \<and> t - lastActivityAt (snd e) > idle)) ?xs"
  proof -
    have "userInstances (idle_pass t idle ?xs m)
          = filter (\<lambda>e. fst e \<notin> set (idle_victims t idle ?xs)) ?xs"
      by (rule idle_pass_instances)
    also have "\<dots> = filter (\<lambda>e. \<not> (\<not> pendingRequests (snd e) > 0
                                      \<and> t - lastActivityAt (snd e) > idle)) ?xs"
      by (rule idle_pass_instances_distinct [OF d])
    also have "\<dots> = filter (\<lambda>e. \<not> (pendingRequests (snd e) = 0
                                      \<and> t - lastActivityAt (snd e) > idle)) ?xs"
      by (rule filter_not_pending [OF nn])
    finally show ?thesis .
  qed
  have 2: "emitted (idle_pass t idle ?xs m)
           = emitted m @ map (\<lambda>u. UserEvicted u Idle) (spec_idle_victims t idle ?xs)"
    by (simp add: idle_pass_emitted idle_victims_spec [OF nn])
  have 3: "spec_lru_victim ?xs = None \<longleftrightarrow> list_all (\<lambda>e. pendingRequests (snd e) > 0) ?xs"
    using find_oldest_None_iff [of ?xs] find_oldest_spec [OF nn] by simp
  let ?m1 = "idle_pass t (userIdleTimeoutMs (options m)) ?xs m"
  have i1: "manager_inv ?m1" using assms by (rule manager_inv_idle_pass)
  have 4: "int (length (userInstances (cleanupInactiveUsers t m))) \<le> maxCachedUsers (options m)
            \<or> list_all (\<lambda>e. pendingRequests (snd e) > 0)
                 (userInstances (cleanupInactiveUsers t m))"
    using lru_pass_post [OF i1]
    by (simp add: cleanupInactiveUsers_def lru_pass_options idle_pass_options)
  show ?thesis
    using 1 2 3 4 lru_pass_unfold [OF assms] manager_inv_idle_pass [OF assms]
      manager_inv_evictUser [OF assms]
    by (simp add: cleanupInactiveUsers_def)
qed

lemma reachable_four_users: "reachable sample_config four_users"
  unfolding four_users_def by (intro reachable_run reachable.init)

text \<open>
  Witness for C3: four users and a cap of two. \<^verbatim>\<open>u-a\<close> is idle and evicted by the idle pass;
  \<^verbatim>\<open>u-d\<close> is idle too but has a request in flight; \<^verbatim>\<open>u-b\<close> and \<^verbatim>\<open>u-c\<close> share the oldest
  timestamp and the LRU pass takes \<^verbatim>\<open>u-b\<close>, the first of the two.
\<close>

theorem cleanup_idle_pass_then_lru_pass_witness:
  "getActiveUserIds four_users = [''u-a'', ''u-b'', ''u-c'', ''u-d'']
   \<and> map fst (userInstances (idle_pass 2500 1000 (userInstances four_users) four_users))
       = [''u-b'', ''u-c'', ''u-d'']
   \<and> getActiveUserIds (cleanupInactiveUsers 2500 four_users) = [''u-c'', ''u-d'']
   \<and> drop 4 (emitted (cleanupInactiveUsers 2500 four_users))
       = [UserEvicted ''u-a'' Idle, UserEvicted ''u-b'' Lru]"
proof -
  have a: "getActiveUserIds four_users = [''u-a'', ''u-b'', ''u-c'', ''u-d'']" by code_simp
  have b: "map fst (filter (\<lambda>e. \<not> (pendingRequests (snd e) = 0
                                     \<and> 2500 - lastActivityAt (snd e) > 1000))
                    (userInstances four_users)) = [''u-b'', ''u-c'', ''u-d'']"
    by code_simp
  have c: "getActiveUserIds (cleanupInactiveUsers 2500 four_users) = [''u-c'', ''u-d'']"
    by code_simp
  have e: "drop 4 (emitted (cleanupInactiveUsers 2500 four_users))
             = [UserEvicted ''u-a'' Idle, UserEvicted ''u-b'' Lru]"
    by code_simp
  show ?thesis
    using cleanup_idle_pass_then_lru_pass
      [OF reachable_inv [OF reachable_four_users], of 2500 1000 "''u-a''"] a b c e
    by simp
qed

text \<open>Scenario S5 of the specification.\<close>

lemma cleanup_scenario_S5: "getActiveUserIds (cleanupInactiveUsers 3 three_users) = [''u-b'', ''u-c'']"
  by code_simp

subsection \<open>Conservation of the pending-request counters\<close>


lemma reachable_pending_nonneg: "reachable g m \<Longrightarrow> pending_nonneg m"
  using reachable_inv by (simp add: manager_inv_def)

text \<open>
  Claim C9. (1) In every reachable state no counter is negative, and it stays so after
  any further operation of the manager. (2) \<^verbatim>\<open>decrementPendingRequests\<close> on a cached user
  whose counter is zero changes nothing. (3) Starting with the counter of a cached user
  \<open>u\<close> at zero, run any sequence of increment and decrement calls (for \<open>u\<close> under any
  spelling of its id, and for other users in between) in which \<open>N\<close> calls increment
  \<open>u\<close>, \<open>N\<close> calls decrement \<open>u\<close>, and every decrement has its increment before it:
  the counter ends at zero, and after every prefix it is a natural number.
\<close>

theorem pending_counter_conservation:
  "(reachable g m \<longrightarrow> pending_nonneg m \<and> pending_nonneg (exec g o1 m))
   \<and> (sanitizeUserId u0 = Inr u \<and> pending_of m u = Some 0
        \<longrightarrow> decrementPendingRequests t u0 m = Inr m)
   \<and> (pending_of m u = Some 0 \<and> list_all is_counter_op ops \<and> matching u 0 ops
        \<and> length (filter (increments u) ops) = N \<and> length (filter (decrements u) ops) = N
        \<longrightarrow> pending_of (run g ops m) u = Some 0
            \<and> (\<forall>k. \<exists>c. pending_of (run g (take k ops) m) u = Some (int c)))"
proof (intro conjI impI)
  assume r: "reachable g m"
  show "pending_nonneg m" using r by (rule reachable_pending_nonneg)
  show "pending_nonneg (exec g o1 m)"
    using reachable.step [OF r] by (rule reachable_pending_nonneg)
next
  assume "sanitizeUserId u0 = Inr u \<and> pending_of m u = Some 0"
  then show "decrementPendingRequests t u0 m = Inr m"
    using decrement_noop_at_zero by blast
next
  assume a: "pending_of m u = Some 0 \<and> list_all is_counter_op ops \<and> matching u 0 ops
        \<and> length (filter (increments u) ops) = N \<and> length (filter (decrements u) ops) = N"
  then have p: "pending_of m u = Some (int 0)" and c: "list_all is_counter_op ops"
    and mt: "matching u 0 ops" by simp_all
  show "pending_of (run g ops m) u = Some 0"
    using counter_ops_pending [OF p c mt, of g] a by simp
  show "\<forall>k. \<exists>c. pending_of (run g (take k ops) m) u = Some (int c)"
    using counter_ops_pending [OF p list_all_take [OF c] matching_take [OF mt], of _ g]
    by blast
qed

text \<open>
  Witness for C9: two increments and two decrements of \<^verbatim>\<open>u-1\<close>, one of them under the
  spelling \<^verbatim>\<open>u/-1\<close>, with a call for another user in between.
\<close>

theorem pending_counter_conservation_witness:
  "pending_of (run sample_config
       [IncrementPending 11 ''u-1'', IncrementPending 12 ''u/-1'', DecrementPending 13 ''u-1'',
        IncrementPending 14 ''other'', DecrementPending 15 ''u-1''] loaded_manager) ''u-1''
     = Some 0
   \<and> decrementPendingRequests 16 ''u-1'' loaded_manager = Inr loaded_manager
   \<and> pending_nonneg loaded_manager"
proof -
  let ?ops = "[IncrementPending 11 ''u-1'', IncrementPending 12 ''u/-1'',
               DecrementPending 13 ''u-1'', IncrementPending 14 ''other'',
               DecrementPending 15 ''u-1'']"
  have p: "pending_of loaded_manager ''u-1'' = Some 0" by code_simp
  have s: "sanitizeUserId ''u-1'' = Inr ''u-1''" by code_simp
  have c: "list_all is_counter_op ?ops" by (simp add: is_counter_op_def)
  have mt: "matching ''u-1'' 0 ?ops" by code_simp
  have ni: "length (filter (increments ''u-1'') ?ops) = 2" by code_simp
  have nd: "length (filter (decrements ''u-1'') ?ops) = 2" by code_simp
  show ?thesis
    using pending_counter_conservation
      [of sample_config loaded_manager "IncrementPending 11 ''u-1''" "''u-1''" "''u-1''" 16 ?ops 2]
      reachable_loaded_manager p s c mt ni nd
    by simp
qed

subsection \<open>Authentication on a cache miss\<close>


lemma ensureUserDirectories_ok:
  assumes "sanitizeUserId u = Inr u"
  shows "ensureUserDirectories g True u
           = Inr \<lparr>p_workspacePath =
                     path_join [getMultiTenantWorkspaceRoot (cfg_workspaceRoot g), ''users'', u],
                  p_configPath =
                     path_join [getMultiTenantConfigRoot (cfg_configRoot g), ''users'', u,
                                ''config.json'']\<rparr>"
    and "ensureUserDirectories g False u = Inl StorageError"
  using assms
  by (simp_all add: ensureUserDirectories_def getUserWorkspacePath_def getUserConfigPath_def)

lemma initializeUserInstance_ok:
  assumes "sanitizeUserId u = Inr u"
  shows "\<exists>i m'. initializeUserInstance g True t u cfg cc m = Inr (i, m')
                \<and> js_map_get (userInstances m') u = Some i
                \<and> tokenToUserId m' = tokenToUserId m
                \<and> logged m' = logged m \<and> verifyCalls m' = verifyCalls m
                \<and> emitted m' = emitted m @ [UserLoaded u]
                \<and> pendingRequests i = 0 \<and> lastActivityAt i = t \<and> config i = cfg
                \<and> status i = (case cc of
                                None \<Rightarrow> Some ''active''
                              | Some c \<Rightarrow> (case cu_status c of
                                            None \<Rightarrow> Some ''active''
                                          | Some s \<Rightarrow> Some s))"
  by (simp add: initializeUserInstance_def ensureUserDirectories_ok(1) [OF assms] Let_def
      emit_def js_map_get_set_same del: js_map_set.simps)

lemma initializeUserInstance_fails:
  assumes "sanitizeUserId u = Inr u"
  shows "initializeUserInstance g False t u cfg cc m = Inl StorageError"
  by (simp add: initializeUserInstance_def ensureUserDirectories_ok(2) [OF assms])

lemma verify_remote_no_url:
  "cloudBackendUrl (options m) = [] \<Longrightarrow>
     verify_remote g env tok m = (None, m\<lparr>logged := logged m @ [Warn_NoBackendUrl]\<rparr>)"
  by (simp add: verify_remote_def log_line_def Let_def)

lemma verify_remote_bad_url:
  "cloudBackendUrl (options m) \<noteq> [] \<Longrightarrow> \<not> url_parses env \<Longrightarrow>
     verify_remote g env tok m = (None, m\<lparr>logged := logged m @ [Error_VerifyThrown]\<rparr>)"
  by (simp add: verify_remote_def log_line_def Let_def)

lemma verify_remote_fetch_throws:
  "cloudBackendUrl (options m) \<noteq> [] \<Longrightarrow> url_parses env \<Longrightarrow> fetched env = FetchThrows \<Longrightarrow>
     verify_remote g env tok m
       = (None, m\<lparr>verifyCalls := verifyCalls m @ [tok],
                   logged := logged m @ [Error_VerifyThrown]\<rparr>)"
  by (simp add: verify_remote_def log_line_def Let_def)

lemma verify_remote_401:
  "cloudBackendUrl (options m) \<noteq> [] \<Longrightarrow> url_parses env \<Longrightarrow> fetched env = Response 401 body \<Longrightarrow>
     verify_remote g env tok m = (None, m\<lparr>verifyCalls := verifyCalls m @ [tok]\<rparr>)"
  by (simp add: verify_remote_def response_ok_def Let_def)

lemma verify_remote_http_failure:
  "cloudBackendUrl (options m) \<noteq> [] \<Longrightarrow> url_parses env \<Longrightarrow> fetched env = Response st body \<Longrightarrow>
   \<not> response_ok st \<Longrightarrow> st \<noteq> 401 \<Longrightarrow>
     verify_remote g env tok m
       = (None, m\<lparr>verifyCalls := verifyCalls m @ [tok],
                   logged := logged m @ [Error_VerifyHttp st]\<rparr>)"
  by (simp add: verify_remote_def log_line_def Let_def)

lemma verify_remote_body_throws:
  "cloudBackendUrl (options m) \<noteq> [] \<Longrightarrow> url_parses env \<Longrightarrow>
   fetched env = Response st BodyThrows \<Longrightarrow> response_ok st \<Longrightarrow>
     verify_remote g env tok m
       = (None, m\<lparr>verifyCalls := verifyCalls m @ [tok],
                   logged := logged m @ [Error_VerifyThrown]\<rparr>)"
  by (simp add: verify_remote_def log_line_def Let_def)

lemma verify_remote_no_record:
  "cloudBackendUrl (options m) \<noteq> [] \<Longrightarrow> url_parses env \<Longrightarrow>
   fetched env = Response st (Json None) \<Longrightarrow> response_ok st \<Longrightarrow>
     verify_remote g env tok m = (None, m\<lparr>verifyCalls := verifyCalls m @ [tok]\<rparr>)"
  by (simp add: verify_remote_def Let_def)

lemma verify_remote_no_user_id:
  "cloudBackendUrl (options m) \<noteq> [] \<Longrightarrow> url_parses env \<Longrightarrow>
   fetched env = Response st (Json (Some r)) \<Longrightarrow> response_ok st \<Longrightarrow> user_id r = [] \<Longrightarrow>
     verify_remote g env tok m = (None, m\<lparr>verifyCalls := verifyCalls m @ [tok]\<rparr>)"
  by (simp add: verify_remote_def Let_def)

lemma verify_remote_bad_user_id:
  "cloudBackendUrl (options m) \<noteq> [] \<Longrightarrow> url_parses env \<Longrightarrow>
   fetched env = Response st (Json (Some r)) \<Longrightarrow> response_ok st \<Longrightarrow> user_id r \<noteq> [] \<Longrightarrow>
   sanitizeUserId (user_id r) = Inl e \<Longrightarrow>
     verify_remote g env tok m
       = (None, m\<lparr>verifyCalls := verifyCalls m @ [tok],
                   logged := logged m @ [Error_VerifyThrown]\<rparr>)"
  by (simp add: verify_remote_def log_line_def Let_def)

lemma verify_remote_already_cached:
  "cloudBackendUrl (options m) \<noteq> [] \<Longrightarrow> url_parses env \<Longrightarrow>
   fetched env = Response st (Json (Some r)) \<Longrightarrow> response_ok st \<Longrightarrow> user_id r \<noteq> [] \<Longrightarrow>
   sanitizeUserId (user_id r) = Inr uid \<Longrightarrow> js_map_has (userInstances m) uid \<Longrightarrow>
     verify_remote g env tok m
       = (Some uid, m\<lparr>verifyCalls := verifyCalls m @ [tok],
                       tokenToUserId := js_map_set tok uid (tokenToUserId m),
                       logged := logged m @ [Log_TokenVerified uid]\<rparr>)"
  by (simp add: verify_remote_def log_line_def Let_def del: js_map_set.simps)

lemma verify_remote_no_directories:
  assumes "cloudBackendUrl (options m) \<noteq> []" and "url_parses env"
    and "fetched env = Response st (Json (Some r))" and "response_ok st" and "user_id r \<noteq> []"
    and "sanitizeUserId (user_id r) = Inr uid" and "\<not> js_map_has (userInstances m) uid"
    and "\<not> mkdir_ok env"
  shows "verify_remote g env tok m
       = (None, m\<lparr>verifyCalls := verifyCalls m @ [tok],
                   tokenToUserId := js_map_set tok uid (tokenToUserId m),
                   logged := logged m @ [Error_VerifyThrown]\<rparr>)"
  using assms initializeUserInstance_fails [OF sanitizeUserId_idem [OF assms(6)]]
  by (simp add: verify_remote_def log_line_def Let_def del: js_map_set.simps)

lemma verify_remote_provisioned:
  assumes "cloudBackendUrl (options m) \<noteq> []" and "url_parses env"
    and "fetched env = Response st (Json (Some r))" and "response_ok st" and "user_id r \<noteq> []"
    and "sanitizeUserId (user_id r) = Inr uid" and "\<not> js_map_has (userInstances m) uid"
    and "mkdir_ok env"
  shows "fst (verify_remote g env tok m) = Some uid
       \<and> tokenToUserId (snd (verify_remote g env tok m)) = js_map_set tok uid (tokenToUserId m)
       \<and> verifyCalls (snd (verify_remote g env tok m)) = verifyCalls m @ [tok]
       \<and> emitted (snd (verify_remote g env tok m)) = emitted m @ [UserLoaded uid]
       \<and> logged (snd (verify_remote g env tok m)) = logged m @ [Log_TokenVerified uid]
       \<and> (\<exists>i. js_map_get (userInstances (snd (verify_remote g env tok m))) uid = Some i
              \<and> pendingRequests i = 0 \<and> lastActivityAt i = now env
              \<and> config i = openclaw_config r
              \<and> status i = (case vr_status r of None \<Rightarrow> Some ''active'' | Some s \<Rightarrow> Some s))"
proof -
  let ?m2 = "m\<lparr>verifyCalls := verifyCalls m @ [tok],
               tokenToUserId := js_map_set tok uid (tokenToUserId m)\<rparr>"
  let ?cc = "Some \<lparr>cu_userId = user_id r, cu_gatewayToken = tok,
                   cu_openclawConfig = openclaw_config r, cu_status = vr_status r,
                   cu_llmApiKey = None, cu_updatedAt = now_iso env\<rparr>"
  from initializeUserInstance_ok [OF sanitizeUserId_idem [OF assms(6)],
      of g "now env" "openclaw_config r" ?cc ?m2]
  obtain i m' where i:
    "initializeUserInstance g True (now env) uid (openclaw_config r) ?cc ?m2 = Inr (i, m')"
    "js_map_get (userInstances m') uid = Some i"
    "tokenToUserId m' = tokenToUserId ?m2" "logged m' = logged ?m2"
    "verifyCalls m' = verifyCalls ?m2" "emitted m' = emitted ?m2 @ [UserLoaded uid]"
    "pendingRequests i = 0" "lastActivityAt i = now env" "config i = openclaw_config r"
    "status i = (case vr_status r of None \<Rightarrow> Some ''active'' | Some s \<Rightarrow> Some s)"
    by auto
  have "verify_remote g env tok m = (Some uid, log_line (Log_TokenVerified uid) m')"
    using assms i(1)
    by (simp add: verify_remote_def Let_def del: js_map_set.simps)
  then show ?thesis using i(2-) by (simp add: log_line_def)
qed

lemma verify_remote_Some:
  assumes "fst (verify_remote g env tok m) = Some uid"
  shows "cloudBackendUrl (options m) \<noteq> [] \<and> url_parses env
       \<and> (\<exists>st r. fetched env = Response st (Json (Some r)) \<and> response_ok st
                \<and> user_id r \<noteq> [] \<and> sanitizeUserId (user_id r) = Inr uid
                \<and> (js_map_has (userInstances m) uid \<or> mkdir_ok env))"
proof -
  have url: "cloudBackendUrl (options m) \<noteq> []"
  proof
    assume "cloudBackendUrl (options m) = []"
    from verify_remote_no_url [OF this, of g env tok] assms show False by simp
  qed
  have parses: "url_parses env"
  proof (rule ccontr)
    assume "\<not> url_parses env"
    from verify_remote_bad_url [OF url this, of g tok] assms show False by simp
  qed
  show ?thesis
  proof (cases "fetched env")
    case FetchThrows
    then show ?thesis using assms verify_remote_fetch_throws [OF url parses] by auto
  next
    case (Response st body)
    show ?thesis
    proof (cases "response_ok st")
      case False
      then show ?thesis
        using assms Response verify_remote_401 [OF url parses, of body g tok]
          verify_remote_http_failure [OF url parses Response False, of g tok]
        by (cases "st = 401") auto
    next
      case ok: True
      show ?thesis
      proof (cases body)
        case BodyThrows
        then show ?thesis
          using assms Response ok verify_remote_body_throws [OF url parses, of st g tok] by auto
      next
        case (Json ro)
        show ?thesis
        proof (cases ro)
          case None
          then show ?thesis
            using assms Response ok Json verify_remote_no_record [OF url parses, of st g tok]
            by auto
        next
          case (Some r)
          have f: "fetched env = Response st (Json (Some r))" using Response Json Some by simp
          show ?thesis
          proof (cases "user_id r = []")
            case True
            then show ?thesis
              using assms verify_remote_no_user_id [OF url parses f ok True, of g tok] by auto
          next
            case ne: False
            show ?thesis
            proof (cases "sanitizeUserId (user_id r)")
              case (Inl e)
              then show ?thesis
                using assms verify_remote_bad_user_id [OF url parses f ok ne Inl, of g tok] by auto
            next
              case (Inr u)
              show ?thesis
              proof (cases "js_map_has (userInstances m) u")
                case True
                then show ?thesis
                  using assms verify_remote_already_cached [OF url parses f ok ne Inr True, of g tok]
                    url parses f ok ne Inr
                  by auto
              next
                case nh: False
                show ?thesis
                proof (cases "mkdir_ok env")
                  case True
                  then show ?thesis
                    using assms verify_remote_provisioned [OF url parses f ok ne Inr nh True, of g tok]
                      url parses f ok ne Inr
                    by auto
                next
                  case False
                  then show ?thesis
                    using assms
                      verify_remote_no_directories [OF url parses f ok ne Inr nh False, of g tok]
                    by auto
                qed
              qed
            qed
          qed
        qed
      qed
    qed
  qed
qed

lemma verify_remote_calls:
  assumes "cloudBackendUrl (options m) \<noteq> []" and "url_parses env"
  shows "verifyCalls (snd (verify_remote g env tok m)) = verifyCalls m @ [tok]"
proof (cases "fetched env")
  case FetchThrows
  then show ?thesis using verify_remote_fetch_throws [OF assms] by simp
next
  case (Response st body)
  show ?thesis
  proof (cases "response_ok st")
    case False
    then show ?thesis
      using Response verify_remote_401 [OF assms, of body g tok]
        verify_remote_http_failure [OF assms Response False, of g tok]
      by (cases "st = 401") auto
  next
    case ok: True
    show ?thesis
    proof (cases body)
      case BodyThrows
      then show ?thesis using Response ok verify_remote_body_throws [OF assms, of st g tok] by simp
    next
      case (Json ro)
      show ?thesis
      proof (cases ro)
        case None
        then show ?thesis
          using Response ok Json verify_remote_no_record [OF assms, of st g tok] by simp
      next
        case (Some r)
        have f: "fetched env = Response st (Json (Some r))" using Response Json Some by simp
        show ?thesis
        proof (cases "user_id r = []")
          case True
          then show ?thesis using verify_remote_no_user_id [OF assms f ok True, of g tok] by simp
        next
          case ne: False
          show ?thesis
          proof (cases "sanitizeUserId (user_id r)")
            case (Inl e)
            then show ?thesis
              using verify_remote_bad_user_id [OF assms f ok ne Inl, of g tok] by simp
          next
            case (Inr u)
            show ?thesis
            proof (cases "js_map_has (userInstances m) u")
              case True
              then show ?thesis
                using verify_remote_already_cached [OF assms f ok ne Inr True, of g tok] by simp
            next
              case nh: False
              show ?thesis
                using verify_remote_provisioned [OF assms f ok ne Inr nh, of g tok]
                  verify_remote_no_directories [OF assms f ok ne Inr nh, of g tok]
                by (cases "mkdir_ok env") auto
            qed
          qed
        qed
      qed
    qed
  qed
qed


lemma verify_remote_provisioned_exact:
  assumes "cloudBackendUrl (options m) \<noteq> []" and "url_parses env"
    and "fetched env = Response st (Json (Some r))" and "response_ok st" and "user_id r \<noteq> []"
    and "sanitizeUserId (user_id r) = Inr uid" and "\<not> js_map_has (userInstances m) uid"
    and "mkdir_ok env"
  shows "verify_remote g env tok m
       = (Some uid,
          m\<lparr>verifyCalls := verifyCalls m @ [tok],
            tokenToUserId := js_map_set tok uid (tokenToUserId m),
            userInstances :=
              js_map_set uid
                \<lparr>userId = uid, config = openclaw_config r,
                 workspacePath =
                   path_join [getMultiTenantWorkspaceRoot (cfg_workspaceRoot g), ''users'', uid],
                 configPath =
                   path_join [getMultiTenantConfigRoot (cfg_configRoot g), ''users'', uid,
                              ''config.json''],
                 lastActivityAt = now env, pendingRequests = 0,
                 status = (case vr_status r of None \<Rightarrow> Some ''active'' | Some s \<Rightarrow> Some s),
                 llmApiKey = None\<rparr>
                (userInstances m),
            configCache := js_map_set uid (openclaw_config r) (configCache m),
            workspaceResolvers :=
              js_map_set uid
                (createWorkspaceFileResolver g uid
                   (path_join [getMultiTenantWorkspaceRoot (cfg_workspaceRoot g), ''users'', uid])
                   (Some (templatePath (options m))))
                (workspaceResolvers m),
            emitted := emitted m @ [UserLoaded uid],
            logged := logged m @ [Log_TokenVerified uid]\<rparr>)"
  using assms
  by (simp add: verify_remote_def initializeUserInstance_def
      ensureUserDirectories_ok(1) [OF sanitizeUserId_idem [OF assms(6)]]
      Let_def emit_def log_line_def del: js_map_set.simps)

text \<open>
  Claim C4, as the code has it. When the token misses the local cache, the asynchronous
  \<^verbatim>\<open>authenticateToken\<close> goes to the remote branch, and:
  \<^item> with no \<^verbatim>\<open>cloudBackendUrl\<close> configured it logs a warning and returns \<^verbatim>\<open>null\<close> without any
    remote call, and with one that \<^verbatim>\<open>new URL\<close> rejects it logs the error and returns
    \<^verbatim>\<open>null\<close>, again without a call;
  \<^item> with a URL that parses, exactly one verify call is issued for the token, and
    \<^item> on a 2xx response carrying a record with a non-empty \<^verbatim>\<open>user_id\<close> that sanitizes to
      \<open>uid\<close>, the directories being creatable: the token is in the index under \<open>uid\<close>,
      the tenant is cached, and \<open>uid\<close> is returned. When the tenant was cached already, only
      the token index, the call and one log line are added; when it is new, the instance
      is stored with no pending request, the time of the call, the configuration and the
      status of the record (\<^verbatim>\<open>active\<close> when it has none), with its resolver and its cached
      configuration, and one \<^verbatim>\<open>user-loaded\<close> event is emitted;
    \<^item> when the \<^verbatim>\<open>user_id\<close> of the record does not sanitize: \<^verbatim>\<open>null\<close> is returned and the
      error logged;
    \<^item> when the tenant is new and its directories cannot be made: \<^verbatim>\<open>null\<close> is returned and
      the error logged, the token staying in the index under \<open>uid\<close> (it was inserted before
      the failure);
    \<^item> on 401: \<^verbatim>\<open>null\<close>, and nothing is logged;
    \<^item> on any other non-2xx status, and when \<^verbatim>\<open>fetch\<close> throws: \<^verbatim>\<open>null\<close>, and the failure is
      logged;
    \<^item> on a 2xx response whose body cannot be read: \<^verbatim>\<open>null\<close>, and the error is logged;
    \<^item> on a 2xx response without a record (no \<^verbatim>\<open>data\<close> member, or a record whose
      \<^verbatim>\<open>user_id\<close> is missing or empty): \<^verbatim>\<open>null\<close>, nothing is logged and nothing but the call
      is recorded;
  \<^item> conversely a user id is returned only on a 2xx response carrying a record whose
    non-empty \<^verbatim>\<open>user_id\<close> sanitizes to that id, the tenant being cached or its directories
    creatable.
  Every throw of the source sits inside the \<^verbatim>\<open>try\<close> block or inside \<^verbatim>\<open>emit\<close>, so every
  branch above ends in a returned value: the call never throws.
\<close>

theorem verify_on_cache_miss:
  assumes "cache_hit m tok = None"
  shows "authenticateToken g env tok m = verify_remote g env tok m
   \<and> (cloudBackendUrl (options m) = [] \<longrightarrow>
        authenticateToken g env tok m = (None, m\<lparr>logged := logged m @ [Warn_NoBackendUrl]\<rparr>))
   \<and> (cloudBackendUrl (options m) \<noteq> [] \<and> \<not> url_parses env \<longrightarrow>
        authenticateToken g env tok m = (None, m\<lparr>logged := logged m @ [Error_VerifyThrown]\<rparr>))
   \<and> (cloudBackendUrl (options m) \<noteq> [] \<and> url_parses env \<longrightarrow>
        verifyCalls (snd (authenticateToken g env tok m)) = verifyCalls m @ [tok]
        \<and> (\<forall>st r uid.
              fetched env = Response st (Json (Some r)) \<and> response_ok st \<and> user_id r \<noteq> []
              \<and> sanitizeUserId (user_id r) = Inr uid \<and> mkdir_ok env \<longrightarrow>
                fst (authenticateToken g env tok m) = Some uid
                \<and> js_map_get (tokenToUserId (snd (authenticateToken g env tok m))) tok = Some uid
                \<and> js_map_has (userInstances (snd (authenticateToken g env tok m))) uid)
        \<and> (\<forall>st r e.
              fetched env = Response st (Json (Some r)) \<and> response_ok st \<and> user_id r \<noteq> []
              \<and> sanitizeUserId (user_id r) = Inl e \<longrightarrow>
                authenticateToken g env tok m
                  = (None, m\<lparr>verifyCalls := verifyCalls m @ [tok],
                              logged := logged m @ [Error_VerifyThrown]\<rparr>))
        \<and> (\<forall>st r uid.
              fetched env = Response st (Json (Some r)) \<and> response_ok st \<and> user_id r \<noteq> []
              \<and> sanitizeUserId (user_id r) = Inr uid \<and> \<not> js_map_has (userInstances m) uid
              \<and> \<not> mkdir_ok env \<longrightarrow>
                fst (authenticateToken g env tok m) = None
                \<and> logged (snd (authenticateToken g env tok m)) = logged m @ [Error_VerifyThrown])
        \<and> (\<forall>body. fetched env = Response 401 body \<longrightarrow>
              authenticateToken g env tok m = (None, m\<lparr>verifyCalls := verifyCalls m @ [tok]\<rparr>))
        \<and> (\<forall>st body. fetched env = Response st body \<and> \<not> response_ok st \<and> st \<noteq> 401 \<longrightarrow>
              authenticateToken g env tok m
                = (None, m\<lparr>verifyCalls := verifyCalls m @ [tok],
                            logged := logged m @ [Error_VerifyHttp st]\<rparr>))
        \<and> (fetched env = FetchThrows \<longrightarrow>
              authenticateToken g env tok m
                = (None, m\<lparr>verifyCalls := verifyCalls m @ [tok],
                            logged := logged m @ [Error_VerifyThrown]\<rparr>))
        \<and> (\<forall>st. fetched env = Response st BodyThrows \<and> response_ok st \<longrightarrow>
              authenticateToken g env tok m
                = (None, m\<lparr>verifyCalls := verifyCalls m @ [tok],
                            logged := logged m @ [Error_VerifyThrown]\<rparr>))
        \<and> (\<forall>st. fetched env = Response st (Json None) \<and> response_ok st \<longrightarrow>
              authenticateToken g env tok m = (None, m\<lparr>verifyCalls := verifyCalls m @ [tok]\<rparr>))
        \<and> (\<forall>st r. fetched env = Response st (Json (Some r)) \<and> response_ok st
                   \<and> user_id r = [] \<longrightarrow>
              authenticateToken g env tok m = (None, m\<lparr>verifyCalls := verifyCalls m @ [tok]\<rparr>))
        \<and> (\<forall>st r uid.
              fetched env = Response st (Json (Some r)) \<and> response_ok st \<and> user_id r \<noteq> []
              \<and> sanitizeUserId (user_id r) = Inr uid \<and> js_map_has (userInstances m) uid \<longrightarrow>
                authenticateToken g env tok m
                  = (Some uid, m\<lparr>verifyCalls := verifyCalls m @ [tok],
                                  tokenToUserId := js_map_set tok uid (tokenToUserId m),
                                  logged := logged m @ [Log_TokenVerified uid]\<rparr>))
        \<and> (\<forall>st r uid.
              fetched env = Response st (Json (Some r)) \<and> response_ok st \<and> user_id r \<noteq> []
              \<and> sanitizeUserId (user_id r) = Inr uid \<and> \<not> js_map_has (userInstances m) uid
              \<and> mkdir_ok env \<longrightarrow>
                authenticateToken g env tok m
                  = (Some uid,
                     m\<lparr>verifyCalls := verifyCalls m @ [tok],
                       tokenToUserId := js_map_set tok uid (tokenToUserId m),
                       userInstances :=
                         js_map_set uid
                           \<lparr>userId = uid, config = openclaw_config r,
                            workspacePath =
                              path_join [getMultiTenantWorkspaceRoot (cfg_workspaceRoot g),
                                         ''users'', uid],
                            configPath =
                              path_join [getMultiTenantConfigRoot (cfg_configRoot g),
                                         ''users'', uid, ''config.json''],
                            lastActivityAt = now env, pendingRequests = 0,
                            status = (case vr_status r of
                                        None \<Rightarrow> Some ''active''
                                      | Some s \<Rightarrow> Some s),
                            llmApiKey = None\<rparr>
                           (userInstances m),
                       configCache := js_map_set uid (openclaw_config r) (configCache m),
                       workspaceResolvers :=
                         js_map_set uid
                           (createWorkspaceFileResolver g uid
                              (path_join [getMultiTenantWorkspaceRoot (cfg_workspaceRoot g),
                                          ''users'', uid])
                              (Some (templatePath (options m))))
                           (workspaceResolvers m),
                       emitted := emitted m @ [UserLoaded uid],
                       logged := logged m @ [Log_TokenVerified uid]\<rparr>))
        \<and> (\<forall>st r uid.
              fetched env = Response st (Json (Some r)) \<and> response_ok st \<and> user_id r \<noteq> []
              \<and> sanitizeUserId (user_id r) = Inr uid \<and> \<not> js_map_has (userInstances m) uid
              \<and> \<not> mkdir_ok env \<longrightarrow>
                authenticateToken g env tok m
                  = (None, m\<lparr>verifyCalls := verifyCalls m @ [tok],
                              tokenToUserId := js_map_set tok uid (tokenToUserId m),
                              logged := logged m @ [Error_VerifyThrown]\<rparr>)))
   \<and> (\<forall>uid. fst (authenticateToken g env tok m) = Some uid \<longrightarrow>
        cloudBackendUrl (options m) \<noteq> [] \<and> url_parses env
        \<and> (\<exists>st r. fetched env = Response st (Json (Some r)) \<and> response_ok st
                 \<and> user_id r \<noteq> [] \<and> sanitizeUserId (user_id r) = Inr uid
                 \<and> (js_map_has (userInstances m) uid \<or> mkdir_ok env)))"
proof -
  have A: "authenticateToken g env tok m = verify_remote g env tok m"
    using assms by (simp add: authenticateToken_def)
  {
    assume u: "cloudBackendUrl (options m) \<noteq> []" "url_parses env"
    have ok: "fst (verify_remote g env tok m) = Some uid
              \<and> js_map_get (tokenToUserId (snd (verify_remote g env tok m))) tok = Some uid
              \<and> js_map_has (userInstances (snd (verify_remote g env tok m))) uid"
      if f: "fetched env = Response st (Json (Some r))" "response_ok st" "user_id r \<noteq> []"
        "sanitizeUserId (user_id r) = Inr uid" "mkdir_ok env" for st r uid
    proof (cases "js_map_has (userInstances m) uid")
      case True
      then show ?thesis
        using verify_remote_already_cached [OF u f(1-4) True, of g tok]
        by (simp add: js_map_get_set_same del: js_map_set.simps)
    next
      case False
      then show ?thesis
        using verify_remote_provisioned [OF u f(1-4) False f(5), of g tok]
        by (auto simp add: js_map_get_set_same js_map_has_get simp del: js_map_set.simps)
    qed
    have no_dirs: "fst (verify_remote g env tok m) = None
                \<and> logged (snd (verify_remote g env tok m)) = logged m @ [Error_VerifyThrown]"
      if f: "fetched env = Response st (Json (Some r))" "response_ok st" "user_id r \<noteq> []"
        "sanitizeUserId (user_id r) = Inr uid" "\<not> js_map_has (userInstances m) uid"
        "\<not> mkdir_ok env" for st r uid
      using verify_remote_no_directories [OF u f, of g tok] by simp
    note ok no_dirs
  }
  note remote = this
  show ?thesis
    unfolding A
    apply (intro conjI impI allI)
    subgoal by (rule refl)
    subgoal by (rule verify_remote_no_url)
    subgoal by (rule verify_remote_bad_url) blast+
    subgoal by (rule verify_remote_calls) blast+
    subgoal using remote(1) by blast
    subgoal using remote(1) by blast
    subgoal using remote(1) by blast
    subgoal by (rule verify_remote_bad_user_id) blast+
    subgoal using remote(2) by blast
    subgoal using remote(2) by blast
    subgoal by (rule verify_remote_401) blast+
    subgoal by (rule verify_remote_http_failure) blast+
    subgoal by (rule verify_remote_fetch_throws) blast+
    subgoal by (rule verify_remote_body_throws) blast+
    subgoal by (rule verify_remote_no_record) blast+
    subgoal by (rule verify_remote_no_user_id) blast+
    subgoal by (rule verify_remote_already_cached) blast+
    subgoal by (rule verify_remote_provisioned_exact) blast+
    subgoal by (rule verify_remote_no_directories) blast+
    subgoal using verify_remote_Some by blast
    subgoal using verify_remote_Some by blast
    subgoal using verify_remote_Some by blast
    done
qed


text \<open>
  Witness for C4: a cold cache and a backend that accepts the token (scenario S1 of the
  specification), answers 401, answers 503, cannot be reached, answers 200 with a body
  that cannot be read, with no record, with an empty user id or with the user id \<^verbatim>\<open>/\<close>; a
  second token of a tenant that is cached; and a tenant whose directories cannot be made.
\<close>

theorem verify_on_cache_miss_witness:
  "fst (authenticateToken sample_config (verified ''u-1'' ''active'' 10) ''gt_abc''
          (new_manager sample_options)) = Some ''u-1''
   \<and> verifyCalls (snd (authenticateToken sample_config (verified ''u-1'' ''active'' 10) ''gt_abc''
          (new_manager sample_options))) = [''gt_abc'']
   \<and> js_map_get (tokenToUserId (snd (authenticateToken sample_config
          (verified ''u-1'' ''active'' 10) ''gt_abc'' (new_manager sample_options)))) ''gt_abc''
       = Some ''u-1''
   \<and> authenticateToken sample_config (answering (Response 401 BodyThrows)) ''gt_abc''
          (new_manager sample_options)
       = (None, (new_manager sample_options)\<lparr>verifyCalls := [''gt_abc'']\<rparr>)
   \<and> authenticateToken sample_config (answering (Response 503 BodyThrows)) ''gt_abc''
          (new_manager sample_options)
       = (None, (new_manager sample_options)
                  \<lparr>verifyCalls := [''gt_abc''], logged := [Error_VerifyHttp 503]\<rparr>)
   \<and> authenticateToken sample_config (answering FetchThrows) ''gt_abc''
          (new_manager sample_options)
       = (None, (new_manager sample_options)
                  \<lparr>verifyCalls := [''gt_abc''], logged := [Error_VerifyThrown]\<rparr>)
   \<and> authenticateToken sample_config (answering (Response 200 BodyThrows)) ''gt_abc''
          (new_manager sample_options)
       = (None, (new_manager sample_options)
                  \<lparr>verifyCalls := [''gt_abc''], logged := [Error_VerifyThrown]\<rparr>)
   \<and> authenticateToken sample_config (answering (Response 200 (Json None))) ''gt_abc''
          (new_manager sample_options)
       = (None, (new_manager sample_options)\<lparr>verifyCalls := [''gt_abc'']\<rparr>)
   \<and> authenticateToken sample_config (verified [] ''active'' 10) ''gt_abc''
          (new_manager sample_options)
       = (None, (new_manager sample_options)\<lparr>verifyCalls := [''gt_abc'']\<rparr>)
   \<and> authenticateToken sample_config (verified ''/'' ''active'' 10) ''gt_abc''
          (new_manager sample_options)
       = (None, (new_manager sample_options)
                  \<lparr>verifyCalls := [''gt_abc''], logged := [Error_VerifyThrown]\<rparr>)
   \<and> authenticateToken sample_config (verified ''u-1'' ''active'' 30) ''gt_new'' loaded_manager
       = (Some ''u-1'',
          loaded_manager
            \<lparr>verifyCalls := [''gt_abc'', ''gt_new''],
             tokenToUserId := [(''gt_abc'', ''u-1''), (''gt_new'', ''u-1'')],
             logged := [Log_TokenVerified ''u-1'', Log_TokenVerified ''u-1'']\<rparr>)
   \<and> emitted (snd (authenticateToken sample_config (verified ''u-1'' ''active'' 10) ''gt_abc''
          (new_manager sample_options))) = [UserLoaded ''u-1'']
   \<and> logged (snd (authenticateToken sample_config (verified ''u-1'' ''active'' 10) ''gt_abc''
          (new_manager sample_options))) = [Log_TokenVerified ''u-1'']
   \<and> map_option (\<lambda>i. (pendingRequests i, lastActivityAt i, status i, config i))
        (js_map_get (userInstances (snd (authenticateToken sample_config
           (verified ''u-1'' ''active'' 10) ''gt_abc'' (new_manager sample_options)))) ''u-1'')
       = Some (0, 10, Some ''active'', ''{}'')
   \<and> authenticateToken sample_config ((verified ''u-1'' ''active'' 10)\<lparr>mkdir_ok := False\<rparr>)
          ''gt_abc'' (new_manager sample_options)
       = (None, (new_manager sample_options)
                  \<lparr>verifyCalls := [''gt_abc''], tokenToUserId := [(''gt_abc'', ''u-1'')],
                   logged := [Error_VerifyThrown]\<rparr>)
   \<and> (\<exists>st r. fetched (verified ''u-1'' ''active'' 10) = Response st (Json (Some r))
             \<and> response_ok st \<and> sanitizeUserId (user_id r) = Inr ''u-1'')"
proof -
  let ?m0 = "new_manager sample_options"
  let ?E1 = "verified ''u-1'' ''active'' 10"
  have miss: "cache_hit ?m0 ''gt_abc'' = None" by code_simp
  have url: "cloudBackendUrl (options ?m0) \<noteq> []" by code_simp
  have vc: "verifyCalls ?m0 = []" by code_simp
  have lg: "logged ?m0 = []" by code_simp
  have em: "emitted ?m0 = []" by code_simp
  have tk: "tokenToUserId ?m0 = []" by code_simp
  have ui: "userInstances ?m0 = []" by code_simp
  have ok: "response_ok 200" by (simp add: response_ok_def)
  have s: "sanitizeUserId ''u-1'' = Inr ''u-1''" by code_simp
  have p1: "url_parses ?E1" by (simp add: verified_def)
  have f1: "fetched ?E1 = Response 200 (Json (Some \<lparr>user_id = ''u-1'',
                vr_status = Some ''active'', openclaw_config = ''{}''\<rparr>))"
    and c1: "mkdir_ok ?E1" and n1: "now ?E1 = 10"
    by (simp_all add: verified_def)
  note T1 = verify_on_cache_miss [OF miss, of sample_config ?E1]
  have 1: "fst (authenticateToken sample_config ?E1 ''gt_abc'' ?m0) = Some ''u-1''
         \<and> js_map_get (tokenToUserId (snd (authenticateToken sample_config ?E1 ''gt_abc'' ?m0)))
              ''gt_abc'' = Some ''u-1''"
    using T1 [THEN conjunct2, THEN conjunct2, THEN conjunct2, THEN conjunct1, THEN mp,
            OF conjI [OF url p1], THEN conjunct2, THEN conjunct1, rule_format,
            of 200 _ "''u-1''"] f1 ok s c1 by simp
  have 2: "verifyCalls (snd (authenticateToken sample_config ?E1 ''gt_abc'' ?m0)) = [''gt_abc'']"
    using T1 [THEN conjunct2, THEN conjunct2, THEN conjunct2, THEN conjunct1, THEN mp,
            OF conjI [OF url p1], THEN conjunct1, rule_format] vc by simp
  have nh: "\<not> js_map_has (userInstances ?m0) ''u-1''" by code_simp
  have 12: "authenticateToken sample_config ?E1 ''gt_abc'' ?m0
      = (Some ''u-1'',
         ?m0\<lparr>verifyCalls := verifyCalls ?m0 @ [''gt_abc''],
            tokenToUserId := js_map_set ''gt_abc'' ''u-1'' (tokenToUserId ?m0),
            userInstances :=
              js_map_set ''u-1''
                \<lparr>userId = ''u-1'', config = ''{}'',
                 workspacePath =
                   path_join [getMultiTenantWorkspaceRoot (cfg_workspaceRoot sample_config),
                              ''users'', ''u-1''],
                 configPath =
                   path_join [getMultiTenantConfigRoot (cfg_configRoot sample_config),
                              ''users'', ''u-1'', ''config.json''],
                 lastActivityAt = 10, pendingRequests = 0,
                 status = Some ''active'', llmApiKey = None\<rparr>
                (userInstances ?m0),
            configCache := js_map_set ''u-1'' ''{}'' (configCache ?m0),
            workspaceResolvers :=
              js_map_set ''u-1''
                (createWorkspaceFileResolver sample_config ''u-1''
                   (path_join [getMultiTenantWorkspaceRoot (cfg_workspaceRoot sample_config),
                               ''users'', ''u-1''])
                   (Some (templatePath (options ?m0))))
                (workspaceResolvers ?m0),
            emitted := emitted ?m0 @ [UserLoaded ''u-1''],
            logged := logged ?m0 @ [Log_TokenVerified ''u-1'']\<rparr>)"
    using T1 [THEN conjunct2, THEN conjunct2, THEN conjunct2, THEN conjunct1, THEN mp,
            OF conjI [OF url p1], THEN conjunct2, THEN conjunct2, THEN conjunct2, THEN conjunct2,
            THEN conjunct2, THEN conjunct2, THEN conjunct2, THEN conjunct2, THEN conjunct2,
            THEN conjunct2, THEN conjunct2, THEN conjunct1, rule_format,
            of 200 "\<lparr>user_id = ''u-1'',
                vr_status = Some ''active'', openclaw_config = ''{}''\<rparr>" "''u-1''"]
      f1 ok s c1 nh n1 by simp
  have a12: "emitted (snd (authenticateToken sample_config ?E1 ''gt_abc'' ?m0))
               = [UserLoaded ''u-1'']"
    and b12: "logged (snd (authenticateToken sample_config ?E1 ''gt_abc'' ?m0))
               = [Log_TokenVerified ''u-1'']"
    and c12: "map_option (\<lambda>i. (pendingRequests i, lastActivityAt i, status i, config i))
        (js_map_get (userInstances (snd (authenticateToken sample_config ?E1 ''gt_abc'' ?m0)))
           ''u-1'') = Some (0, 10, Some ''active'', ''{}'')"
    unfolding 12 by (simp_all add: em lg js_map_get_set_same del: js_map_set.simps)
  have 14: "\<exists>st r. fetched ?E1 = Response st (Json (Some r))
             \<and> response_ok st \<and> sanitizeUserId (user_id r) = Inr ''u-1''"
    using T1 [THEN conjunct2, THEN conjunct2, THEN conjunct2, THEN conjunct2, rule_format,
            of "''u-1''"] 1 by blast
  let ?E2 = "answering (Response 401 BodyThrows)"
  have p2: "url_parses ?E2" and f2: "fetched ?E2 = Response 401 BodyThrows"
    by (simp_all add: answering_def)
  have 3: "authenticateToken sample_config ?E2 ''gt_abc'' ?m0
             = (None, ?m0\<lparr>verifyCalls := [''gt_abc'']\<rparr>)"
    using verify_on_cache_miss [OF miss, of sample_config ?E2, THEN conjunct2, THEN conjunct2,
            THEN conjunct2, THEN conjunct1, THEN mp, OF conjI [OF url p2], THEN conjunct2,
            THEN conjunct2, THEN conjunct2, THEN conjunct2, THEN conjunct1, rule_format,
            OF f2] vc
    by simp
  let ?E3 = "answering (Response 503 BodyThrows)"
  have p3: "url_parses ?E3" and f3: "fetched ?E3 = Response 503 BodyThrows"
    and n3: "\<not> response_ok 503"
    by (simp_all add: answering_def response_ok_def)
  have 4: "authenticateToken sample_config ?E3 ''gt_abc'' ?m0
             = (None, ?m0\<lparr>verifyCalls := [''gt_abc''], logged := [Error_VerifyHttp 503]\<rparr>)"
    using verify_on_cache_miss [OF miss, of sample_config ?E3, THEN conjunct2, THEN conjunct2,
            THEN conjunct2, THEN conjunct1, THEN mp, OF conjI [OF url p3], THEN conjunct2,
            THEN conjunct2, THEN conjunct2, THEN conjunct2, THEN conjunct2, THEN conjunct1,
            rule_format, of 503 BodyThrows]
      f3 n3 vc lg
    by simp
  let ?E4 = "answering FetchThrows"
  have p4: "url_parses ?E4" and f4: "fetched ?E4 = FetchThrows"
    by (simp_all add: answering_def)
  have 5: "authenticateToken sample_config ?E4 ''gt_abc'' ?m0
             = (None, ?m0\<lparr>verifyCalls := [''gt_abc''], logged := [Error_VerifyThrown]\<rparr>)"
    using verify_on_cache_miss [OF miss, of sample_config ?E4, THEN conjunct2, THEN conjunct2,
            THEN conjunct2, THEN conjunct1, THEN mp, OF conjI [OF url p4], THEN conjunct2,
            THEN conjunct2, THEN conjunct2, THEN conjunct2, THEN conjunct2, THEN conjunct2,
            THEN conjunct1, rule_format, OF f4] vc lg
    by simp
  let ?E5 = "answering (Response 200 BodyThrows)"
  have p5: "url_parses ?E5" and f5: "fetched ?E5 = Response 200 BodyThrows"
    by (simp_all add: answering_def)
  have 6: "authenticateToken sample_config ?E5 ''gt_abc'' ?m0
             = (None, ?m0\<lparr>verifyCalls := [''gt_abc''], logged := [Error_VerifyThrown]\<rparr>)"
    using verify_on_cache_miss [OF miss, of sample_config ?E5, THEN conjunct2, THEN conjunct2,
            THEN conjunct2, THEN conjunct1, THEN mp, OF conjI [OF url p5], THEN conjunct2,
            THEN conjunct2, THEN conjunct2, THEN conjunct2, THEN conjunct2, THEN conjunct2,
            THEN conjunct2, THEN conjunct1, rule_format, OF conjI [OF f5 ok]]
      vc lg
    by simp
  let ?E6 = "answering (Response 200 (Json None))"
  have p6: "url_parses ?E6" and f6: "fetched ?E6 = Response 200 (Json None)"
    by (simp_all add: answering_def)
  have 7: "authenticateToken sample_config ?E6 ''gt_abc'' ?m0
             = (None, ?m0\<lparr>verifyCalls := [''gt_abc'']\<rparr>)"
    using verify_on_cache_miss [OF miss, of sample_config ?E6, THEN conjunct2, THEN conjunct2,
            THEN conjunct2, THEN conjunct1, THEN mp, OF conjI [OF url p6], THEN conjunct2,
            THEN conjunct2, THEN conjunct2, THEN conjunct2, THEN conjunct2, THEN conjunct2,
            THEN conjunct2, THEN conjunct2, THEN conjunct1, rule_format, OF conjI [OF f6 ok]] vc
    by simp
  let ?E7 = "verified [] ''active'' 10"
  have p7: "url_parses ?E7"
    and f7: "fetched ?E7 = Response 200 (Json (Some \<lparr>user_id = [],
                vr_status = Some ''active'', openclaw_config = ''{}''\<rparr>))"
    by (simp_all add: verified_def)
  have 8: "authenticateToken sample_config ?E7 ''gt_abc'' ?m0
             = (None, ?m0\<lparr>verifyCalls := [''gt_abc'']\<rparr>)"
    using verify_on_cache_miss [OF miss, of sample_config ?E7, THEN conjunct2, THEN conjunct2,
            THEN conjunct2, THEN conjunct1, THEN mp, OF conjI [OF url p7], THEN conjunct2,
            THEN conjunct2, THEN conjunct2, THEN conjunct2, THEN conjunct2, THEN conjunct2,
            THEN conjunct2, THEN conjunct2, THEN conjunct2, THEN conjunct1, rule_format,
            of 200 "\<lparr>user_id = [],
                vr_status = Some ''active'', openclaw_config = ''{}''\<rparr>"] f7 ok vc
    by simp
  let ?E8 = "verified ''/'' ''active'' 10"
  have p8: "url_parses ?E8"
    and f8: "fetched ?E8 = Response 200 (Json (Some \<lparr>user_id = ''/'',
                vr_status = Some ''active'', openclaw_config = ''{}''\<rparr>))"
    by (simp_all add: verified_def)
  have s8: "sanitizeUserId ''/'' = Inl InvalidUserId_empty" by code_simp
  have 9: "authenticateToken sample_config ?E8 ''gt_abc'' ?m0
             = (None, ?m0\<lparr>verifyCalls := [''gt_abc''], logged := [Error_VerifyThrown]\<rparr>)"
    using verify_on_cache_miss [OF miss, of sample_config ?E8, THEN conjunct2, THEN conjunct2,
            THEN conjunct2, THEN conjunct1, THEN mp, OF conjI [OF url p8], THEN conjunct2,
            THEN conjunct2, THEN conjunct1, rule_format, of 200 "\<lparr>user_id = ''/'',
                vr_status = Some ''active'', openclaw_config = ''{}''\<rparr>" InvalidUserId_empty]
      f8 ok s8 vc lg
    by simp
  let ?E9 = "verified ''u-1'' ''active'' 30"
  have miss': "cache_hit loaded_manager ''gt_new'' = None" by code_simp
  have url': "cloudBackendUrl (options loaded_manager) \<noteq> []" by code_simp
  have l: "verifyCalls loaded_manager = [''gt_abc'']"
    "tokenToUserId loaded_manager = [(''gt_abc'', ''u-1'')]"
    "logged loaded_manager = [Log_TokenVerified ''u-1'']"
    "js_map_has (userInstances loaded_manager) ''u-1''"
    by code_simp+
  have p9: "url_parses ?E9"
    and f9: "fetched ?E9 = Response 200 (Json (Some \<lparr>user_id = ''u-1'',
                vr_status = Some ''active'', openclaw_config = ''{}''\<rparr>))"
    by (simp_all add: verified_def)
  have 10: "authenticateToken sample_config ?E9 ''gt_new'' loaded_manager
       = (Some ''u-1'',
          loaded_manager
            \<lparr>verifyCalls := [''gt_abc'', ''gt_new''],
             tokenToUserId := [(''gt_abc'', ''u-1''), (''gt_new'', ''u-1'')],
             logged := [Log_TokenVerified ''u-1'', Log_TokenVerified ''u-1'']\<rparr>)"
    using verify_on_cache_miss [OF miss', of sample_config ?E9, THEN conjunct2, THEN conjunct2,
            THEN conjunct2, THEN conjunct1, THEN mp, OF conjI [OF url' p9], THEN conjunct2,
            THEN conjunct2, THEN conjunct2, THEN conjunct2, THEN conjunct2, THEN conjunct2,
            THEN conjunct2, THEN conjunct2, THEN conjunct2, THEN conjunct2, THEN conjunct1,
            rule_format, of 200 "\<lparr>user_id = ''u-1'',
                vr_status = Some ''active'', openclaw_config = ''{}''\<rparr>" "''u-1''"]
      f9 ok s l
    by simp
  let ?E10 = "(verified ''u-1'' ''active'' 10)\<lparr>mkdir_ok := False\<rparr>"
  have p10: "url_parses ?E10"
    and f10: "fetched ?E10 = Response 200 (Json (Some \<lparr>user_id = ''u-1'',
                vr_status = Some ''active'', openclaw_config = ''{}''\<rparr>))"
    and c10: "\<not> mkdir_ok ?E10"
    by (simp_all add: verified_def)
  have 13: "authenticateToken sample_config ?E10 ''gt_abc'' ?m0
       = (None, ?m0\<lparr>verifyCalls := [''gt_abc''], tokenToUserId := [(''gt_abc'', ''u-1'')],
                   logged := [Error_VerifyThrown]\<rparr>)"
    using verify_on_cache_miss [OF miss, of sample_config ?E10, THEN conjunct2, THEN conjunct2,
            THEN conjunct2, THEN conjunct1, THEN mp, OF conjI [OF url p10], THEN conjunct2,
            THEN conjunct2, THEN conjunct2, THEN conjunct2, THEN conjunct2, THEN conjunct2,
            THEN conjunct2, THEN conjunct2, THEN conjunct2, THEN conjunct2, THEN conjunct2,
            THEN conjunct2, rule_format, of 200 "\<lparr>user_id = ''u-1'',
                vr_status = Some ''active'', openclaw_config = ''{}''\<rparr>" "''u-1''"]
      f10 ok s c10 nh vc lg tk
    by simp
  show ?thesis
    apply (intro conjI)
    subgoal using 1 by blast
    subgoal by (rule 2)
    subgoal using 1 by blast
    subgoal by (rule 3)
    subgoal by (rule 4)
    subgoal by (rule 5)
    subgoal by (rule 6)
    subgoal by (rule 7)
    subgoal by (rule 8)
    subgoal by (rule 9)
    subgoal by (rule 10)
    subgoal by (rule a12)
    subgoal by (rule b12)
    subgoal by (rule c12)
    subgoal by (rule 13)
    subgoal by (rule 14)
    done
qed

text \<open>
  Counterexample to C4 as stated: with the default options (\<^verbatim>\<open>cloudBackendUrl\<close> empty) the
  token misses the cache, the backend would answer 200 with a record, and yet no verify
  call is issued and the call returns \<^verbatim>\<open>null\<close>. And with a backend configured, a 200
  response whose record carries the user id \<^verbatim>\<open>/\<close> yields \<^verbatim>\<open>null\<close> and an error line: the id
  does not sanitize.
\<close>

theorem verify_not_issued_counterexample:
  "cache_hit (new_manager DEFAULT_options) ''gt_abc'' = None
   \<and> response_ok 200
   \<and> authenticateToken sample_config (verified ''u-1'' ''active'' 10) ''gt_abc''
        (new_manager DEFAULT_options)
       = (None, (new_manager DEFAULT_options)\<lparr>logged := [Warn_NoBackendUrl]\<rparr>)
   \<and> verifyCalls (snd (authenticateToken sample_config (verified ''u-1'' ''active'' 10) ''gt_abc''
        (new_manager DEFAULT_options))) = []
   \<and> cache_hit (new_manager sample_options) ''gt_abc'' = None
   \<and> authenticateToken sample_config (verified ''/'' ''active'' 10) ''gt_abc''
        (new_manager sample_options)
       = (None, (new_manager sample_options)
                  \<lparr>logged := [Error_VerifyThrown], verifyCalls := [''gt_abc'']\<rparr>)"
  by code_simp

section \<open>Properties of the configuration synchronizer\<close>

lemma doSync_failure:
  assumes "\<not> isSyncing svc"
  shows "fst (snd (doSync g w stamp (Inl msg) (svc, mgr)))
         = svc\<lparr>consecutiveFailures := consecutiveFailures svc + 1,
                currentRetryDelay := min (currentRetryDelay svc * 2) (maxRetryDelayMs (sopts svc)),
                alerts := (if consecutiveFailures svc + 1 \<ge> alertThreshold (sopts svc)
                           then alerts svc @ [consecutiveFailures svc + 1] else alerts svc),
                isSyncing := False\<rparr>"
  using assms by (simp add: doSync_def Let_def)

text \<open>
  The part of C5 the code does satisfy: a successful sync sets \<^verbatim>\<open>consecutiveFailures\<close> to 0
  and the retry delay back to \<^verbatim>\<open>initialRetryDelayMs\<close>.
\<close>

lemma doSync_success:
  assumes "\<not> isSyncing svc"
  shows "consecutiveFailures (fst (snd (doSync g w stamp (Inr resp) (svc, mgr)))) = 0
       \<and> currentRetryDelay (fst (snd (doSync g w stamp (Inr resp) (svc, mgr))))
           = initialRetryDelayMs (sopts svc)
       \<and> lastSyncTimestamp (fst (snd (doSync g w stamp (Inr resp) (svc, mgr))))
           = Some (syncTimestamp resp)"
  using assms by (simp add: doSync_def Let_def scheduleSync_def)

lemma min_double: "min (min (a::nat) M * 2) M = min (a * 2) M"
  by (simp add: min_def)

lemma failing_ticks_state:
  fixes opts mgr g
  defines "s0 \<equiv> sync_start (new_sync_service opts)"
  shows "isRunning (fst (failing_ticks g k (s0, mgr)))
       \<and> \<not> isSyncing (fst (failing_ticks g k (s0, mgr)))
       \<and> sopts (fst (failing_ticks g k (s0, mgr))) = opts
       \<and> consecutiveFailures (fst (failing_ticks g k (s0, mgr))) = k
       \<and> currentRetryDelay (fst (failing_ticks g k (s0, mgr)))
           = (if k = 0 then initialRetryDelayMs opts
              else min (initialRetryDelayMs opts * 2 ^ k) (maxRetryDelayMs opts))
       \<and> syncTimer (fst (failing_ticks g k (s0, mgr)))
           = Some (if k = 0 then 0 else min (initialRetryDelayMs opts * 2 ^ k) (maxRetryDelayMs opts))"
proof (induction k)
  case 0
  show ?case by (simp add: s0_def sync_start_def new_sync_service_def scheduleSync_def)
next
  case (Suc k)
  obtain svc mg where sm: "failing_ticks g k (s0, mgr) = (svc, mg)"
    by (cases "failing_ticks g k (s0, mgr)")
  have ih: "isRunning svc" "\<not> isSyncing svc" "sopts svc = opts" "consecutiveFailures svc = k"
    "currentRetryDelay svc = (if k = 0 then initialRetryDelayMs opts
              else min (initialRetryDelayMs opts * 2 ^ k) (maxRetryDelayMs opts))"
    using Suc.IH sm by simp_all
  have d: "min (currentRetryDelay svc * 2) (maxRetryDelayMs opts)
           = min (initialRetryDelayMs opts * 2 ^ Suc k) (maxRetryDelayMs opts)"
  proof (cases "k = 0")
    case True
    then show ?thesis using ih(5) by simp
  next
    case False
    have "min (min (initialRetryDelayMs opts * 2 ^ k) (maxRetryDelayMs opts) * 2)
              (maxRetryDelayMs opts)
          = min (initialRetryDelayMs opts * 2 ^ k * 2) (maxRetryDelayMs opts)"
      by (rule min_double)
    then show ?thesis using ih(5) False by (simp add: mult.assoc mult.commute)
  qed
  show ?case
    using ih(1-4) d
    by (simp add: sm sync_tick_def Let_def doSync_failure [OF ih(2)] scheduleNextSync_def
        scheduleSync_def)
qed

text \<open>
  What the code schedules: after \<open>k > 0\<close> failures in a row the next attempt waits
  \<open>min (initial * 2 ^ k) max\<close>, one doubling more than the specification's
  \<open>min (initial * 2 ^ (k - 1)) max\<close>.
\<close>

lemma retry_delay_after_failures:
  assumes "k > 0"
  shows "syncTimer (fst (failing_ticks g k (sync_start (new_sync_service opts), mgr)))
         = Some (min (initialRetryDelayMs opts * 2 ^ k) (maxRetryDelayMs opts))"
  using failing_ticks_state [of g k opts mgr] assms by simp

text \<open>
  Claim C5 at the failing input. With the default options (initial delay 1000 ms) the
  retry scheduled after the first failure waits 2000 ms, where the specification gives
  \<open>min (1000 * 2 ^ 0) 300000 = 1000\<close>: \<^verbatim>\<open>doSync\<close> doubles \<^verbatim>\<open>currentRetryDelay\<close> before
  \<^verbatim>\<open>scheduleNextSync\<close> reads it, so \<^verbatim>\<open>initialRetryDelayMs\<close> itself is never waited. In
  scenario S6 (initial 1 s, cap 8 s) the four retries wait 2 s, 4 s, 8 s, 8 s where the
  specification lists 1 s, 2 s, 4 s, 8 s.
\<close>

theorem first_retry_delay_is_doubled:
  "syncTimer (fst (failing_ticks sample_config 1
                     (sync_start (new_sync_service DEFAULT_sync_options),
                      new_manager DEFAULT_options))) = Some 2000
   \<and> spec_retry_delay DEFAULT_sync_options 1 = 1000
   \<and> initialRetryDelayMs DEFAULT_sync_options = 1000
   \<and> [syncTimer (fst (failing_ticks sample_config 1
                         (sync_start (new_sync_service S6_sync_options), new_manager DEFAULT_options))),
       syncTimer (fst (failing_ticks sample_config 2
                         (sync_start (new_sync_service S6_sync_options), new_manager DEFAULT_options))),
       syncTimer (fst (failing_ticks sample_config 3
                         (sync_start (new_sync_service S6_sync_options), new_manager DEFAULT_options))),
       syncTimer (fst (failing_ticks sample_config 4
                         (sync_start (new_sync_service S6_sync_options), new_manager DEFAULT_options)))]
      = [Some 2000, Some 4000, Some 8000, Some 8000]
   \<and> [spec_retry_delay S6_sync_options 1, spec_retry_delay S6_sync_options 2,
       spec_retry_delay S6_sync_options 3, spec_retry_delay S6_sync_options 4]
      = [1000, 2000, 4000, 8000]"
  using retry_delay_after_failures [of 1 sample_config DEFAULT_sync_options "new_manager DEFAULT_options"]
    retry_delay_after_failures [of 1 sample_config S6_sync_options "new_manager DEFAULT_options"]
    retry_delay_after_failures [of 2 sample_config S6_sync_options "new_manager DEFAULT_options"]
    retry_delay_after_failures [of 3 sample_config S6_sync_options "new_manager DEFAULT_options"]
    retry_delay_after_failures [of 4 sample_config S6_sync_options "new_manager DEFAULT_options"]
  by (simp add: DEFAULT_sync_options_def S6_sync_options_def spec_retry_delay_def)

section \<open>Properties of the workspace file resolver\<close>


lemma path_basename_no_slash: "CHR ''/'' \<notin> set (path_basename p)"
proof
  assume "CHR ''/'' \<in> set (path_basename p)"
  then have "CHR ''/'' \<in> set (takeWhile (\<lambda>c. c \<noteq> CHR ''/'') (dropWhile (\<lambda>c. c = CHR ''/'') (rev p)))"
    by (simp add: path_basename_def)
  then show False using set_takeWhileD by fastforce
qed

lemma path_basename_plain: "CHR ''/'' \<notin> set s \<Longrightarrow> path_basename s = s"
proof -
  assume a: "CHR ''/'' \<notin> set s"
  then have 1: "dropWhile (\<lambda>c. c = CHR ''/'') (rev s) = rev s"
  proof (cases "rev s")
    case Nil
    then show ?thesis by simp
  next
    case (Cons x xs)
    then have "x \<in> set s" by (metis list.set_intros(1) set_rev)
    then have "x \<noteq> CHR ''/''" using a by auto
    then show ?thesis using Cons by simp
  qed
  have 2: "takeWhile (\<lambda>c. c \<noteq> CHR ''/'') (rev s) = rev s"
    using a by (auto simp: takeWhile_eq_all_conv)
  show ?thesis by (simp add: path_basename_def 1 2)
qed

lemma path_basename_idem: "path_basename (path_basename f) = path_basename f"
  by (rule path_basename_plain) (rule path_basename_no_slash)

lemma default_content_nonempty: "default_content n s = OwnString d \<Longrightarrow> d \<noteq> []"
proof -
  assume "default_content n s = OwnString d"
  then have "map_of (rev (DEFAULT_FILE_CONTENT n)) s = Some d"
    by (auto simp: default_content_def split: option.splits if_splits)
  then have "(s, d) \<in> set (DEFAULT_FILE_CONTENT n)"
    using map_of_SomeD by fastforce
  then show ?thesis by (auto simp: DEFAULT_FILE_CONTENT_def)
qed

text \<open>
  Claim C8. The filename is reduced to its basename before use (reading \<open>f\<close> is reading
  its basename). With \<^verbatim>\<open>{workspacePath}/custom/f\<close> readable, the custom content is returned;
  with the custom file absent and \<^verbatim>\<open>{templatePath}/f\<close> readable, the template content; with
  both absent and a built-in default for \<open>f\<close>, the built-in default; and \<^verbatim>\<open>null\<close> is
  returned only when both files are absent and \<open>f\<close> has no built-in default (and it is
  returned then, unless \<open>f\<close> names a member of \<^verbatim>\<open>Object.prototype\<close>). So a filesystem
  without the custom file yields the template content, and one without the template
  file either yields the built-in default.
\<close>

theorem readWorkspaceFile_priority:
  "readWorkspaceFile n fs r f = readWorkspaceFile n fs r (path_basename f)
   \<and> (fs (customPath r f) = ReadOk c \<longrightarrow> readWorkspaceFile n fs r f = Inr (Content c))
   \<and> (fs (customPath r f) = ENOENT \<and> fs (templateFilePath r f) = ReadOk t
        \<longrightarrow> readWorkspaceFile n fs r f = Inr (Content t))
   \<and> (fs (customPath r f) = ENOENT \<and> fs (templateFilePath r f) = ENOENT
        \<and> default_content n (path_basename f) = OwnString d
        \<longrightarrow> readWorkspaceFile n fs r f = Inr (Content d))
   \<and> (readWorkspaceFile n fs r f = Inr NotFound
        \<longrightarrow> fs (customPath r f) = ENOENT \<and> fs (templateFilePath r f) = ENOENT
            \<and> (\<forall>d'. default_content n (path_basename f) \<noteq> OwnString d'))
   \<and> (fs (customPath r f) = ENOENT \<and> fs (templateFilePath r f) = ENOENT
        \<and> default_content n (path_basename f) = Undefined
        \<longrightarrow> readWorkspaceFile n fs r f = Inr NotFound)"
proof (intro conjI impI)
  show "readWorkspaceFile n fs r f = readWorkspaceFile n fs r (path_basename f)"
    by (simp add: readWorkspaceFile_def path_basename_idem)
next
  assume "fs (customPath r f) = ReadOk c"
  then show "readWorkspaceFile n fs r f = Inr (Content c)"
    by (simp add: readWorkspaceFile_def customPath_def tryReadFile_def)
next
  assume "fs (customPath r f) = ENOENT \<and> fs (templateFilePath r f) = ReadOk t"
  then show "readWorkspaceFile n fs r f = Inr (Content t)"
    by (simp add: readWorkspaceFile_def customPath_def templateFilePath_def tryReadFile_def)
next
  assume a: "fs (customPath r f) = ENOENT \<and> fs (templateFilePath r f) = ENOENT
             \<and> default_content n (path_basename f) = OwnString d"
  then have "d \<noteq> []" using default_content_nonempty by blast
  then show "readWorkspaceFile n fs r f = Inr (Content d)"
    using a by (simp add: readWorkspaceFile_def customPath_def templateFilePath_def tryReadFile_def)
next
  assume a: "readWorkspaceFile n fs r f = Inr NotFound"
  show "fs (customPath r f) = ENOENT"
    using a by (auto simp: readWorkspaceFile_def customPath_def tryReadFile_def Let_def
        split: read_outcome.splits)
  show "fs (templateFilePath r f) = ENOENT"
    using a by (auto simp: readWorkspaceFile_def customPath_def templateFilePath_def
        tryReadFile_def Let_def split: read_outcome.splits)
  show "\<forall>d'. default_content n (path_basename f) \<noteq> OwnString d'"
    using a default_content_nonempty [of n "path_basename f"]
    by (auto simp: readWorkspaceFile_def tryReadFile_def Let_def
        split: read_outcome.splits property_read.splits if_splits)
next
  assume "fs (customPath r f) = ENOENT \<and> fs (templateFilePath r f) = ENOENT
        \<and> default_content n (path_basename f) = Undefined"
  then show "readWorkspaceFile n fs r f = Inr NotFound"
    by (simp add: readWorkspaceFile_def customPath_def templateFilePath_def tryReadFile_def)
qed

text \<open>
  Witness for C8: \<^verbatim>\<open>AGENTS.md\<close>, asked for as \<^verbatim>\<open>../../AGENTS.md\<close>, with all three layers, then
  without the custom file, then without the template file; and a file no layer has.
\<close>

theorem readWorkspaceFile_priority_witness:
  "readWorkspaceFile sample_filenames (sample_fs True True) sample_resolver ''../../AGENTS.md''
     = Inr (Content ''custom agents'')
   \<and> readWorkspaceFile sample_filenames (sample_fs False True) sample_resolver ''../../AGENTS.md''
     = Inr (Content ''template agents'')
   \<and> (\<exists>d. default_content sample_filenames ''AGENTS.md'' = OwnString d
         \<and> readWorkspaceFile sample_filenames (sample_fs False False) sample_resolver
              ''../../AGENTS.md'' = Inr (Content d))
   \<and> readWorkspaceFile sample_filenames (sample_fs False False) sample_resolver ''NOTES.md''
     = Inr NotFound"
proof -
  let ?f = "''../../AGENTS.md''"
  have b: "path_basename ?f = ''AGENTS.md''" by code_simp
  have cp: "customPath sample_resolver ?f = ''/srv/ws/users/u-1/custom/AGENTS.md''" by code_simp
  have tp: "templateFilePath sample_resolver ?f = ''/srv/tpl/AGENTS.md''" by code_simp
  have cn: "customPath sample_resolver ''NOTES.md'' = ''/srv/ws/users/u-1/custom/NOTES.md''"
    by code_simp
  have tn: "templateFilePath sample_resolver ''NOTES.md'' = ''/srv/tpl/NOTES.md''" by code_simp
  have un: "default_content sample_filenames (path_basename ''NOTES.md'') = Undefined"
    by code_simp
  obtain d where d: "default_content sample_filenames ''AGENTS.md'' = OwnString d"
    by (simp add: default_content_def DEFAULT_FILE_CONTENT_def sample_filenames_def)
  have 1: "readWorkspaceFile sample_filenames (sample_fs True True) sample_resolver ?f
           = Inr (Content ''custom agents'')"
    using readWorkspaceFile_priority
      [of sample_filenames "sample_fs True True" sample_resolver ?f "''custom agents''",
       THEN conjunct2, THEN conjunct1]
    by (simp add: cp sample_fs_def)
  have 2: "readWorkspaceFile sample_filenames (sample_fs False True) sample_resolver ?f
           = Inr (Content ''template agents'')"
    using readWorkspaceFile_priority
      [of sample_filenames "sample_fs False True" sample_resolver ?f _ "''template agents''",
       THEN conjunct2, THEN conjunct2, THEN conjunct1]
    by (simp add: cp tp sample_fs_def)
  have 3: "readWorkspaceFile sample_filenames (sample_fs False False) sample_resolver ?f
           = Inr (Content d)"
    using readWorkspaceFile_priority
      [of sample_filenames "sample_fs False False" sample_resolver ?f _ _ d,
       THEN conjunct2, THEN conjunct2, THEN conjunct2, THEN conjunct1] d
    by (simp add: cp tp b sample_fs_def)
  have 4: "readWorkspaceFile sample_filenames (sample_fs False False) sample_resolver ''NOTES.md''
           = Inr NotFound"
    using readWorkspaceFile_priority
      [of sample_filenames "sample_fs False False" sample_resolver "''NOTES.md''",
       THEN conjunct2, THEN conjunct2, THEN conjunct2, THEN conjunct2, THEN conjunct2] un
    by (simp add: cn tn sample_fs_def)
  show ?thesis using 1 2 3 4 d by blast
qed

text \<open>
  Outside the claim: a fault other than "no such file" propagates, and a name that
  \<^verbatim>\<open>Object.prototype\<close> defines resolves to that member when neither file exists.
\<close>

lemma readWorkspaceFile_fault:
  "fs (customPath r f) = ReadFault \<Longrightarrow> readWorkspaceFile n fs r f = Inl StorageError"
  by (simp add: readWorkspaceFile_def customPath_def tryReadFile_def)

lemma readWorkspaceFile_inherited_member:
  "readWorkspaceFile sample_filenames (sample_fs True True) sample_resolver ''constructor''
     = Inr (NotAString ''constructor'')"
  by code_simp

end
